theory Spec2Isabelle
  imports Main
begin

section \<open>Window and grid configuration\<close>

text \<open>
  The module constants of \<^verbatim>\<open>main.py\<close>.  Python integers are unbounded, so they are
  \<^typ>\<open>int\<close>; Python's \<^verbatim>\<open>//\<close> is floor division, which is \<open>div\<close> on \<^typ>\<open>int\<close>.
\<close>

definition WINDOW_WIDTH :: int where
  "WINDOW_WIDTH = 800"

definition WINDOW_HEIGHT :: int where
  "WINDOW_HEIGHT = 600"

definition GRID_ROWS :: int where
  "GRID_ROWS = 3"

definition GRID_COLS :: int where
  "GRID_COLS = 3"

section \<open>Board layout\<close>

text \<open>
  \<^verbatim>\<open>create_holes()\<close>: the two nested \<^verbatim>\<open>for ... in range(...)\<close> loops append one
  position per (row, col), rows outermost; \<^verbatim>\<open>range(n)\<close> is \<open>[0..n - 1]\<close>.
\<close>

definition create_holes :: "(int \<times> int) list \<times> int" where
  "create_holes =
     (let margin_x = WINDOW_WIDTH div 8;
          margin_y = WINDOW_HEIGHT div 6;
          available_width = WINDOW_WIDTH - 2 * margin_x;
          available_height = WINDOW_HEIGHT - 2 * margin_y;
          cell_w = available_width div GRID_COLS;
          cell_h = available_height div GRID_ROWS;
          positions =
            concat (map (\<lambda>row.
              map (\<lambda>col. (margin_x + cell_w * col + cell_w div 2,
                          margin_y + cell_h * row + cell_h div 2))
                  [0..GRID_COLS - 1])
              [0..GRID_ROWS - 1]);
          radius = min cell_w cell_h div 3
      in (positions, radius))"

section \<open>Difficulty and theme presets\<close>

text \<open>
  \<^verbatim>\<open>DIFFICULTIES\<close> maps a name to
  \<^verbatim>\<open>(mole_visible_ms, spawn_interval_ms, game_length_seconds)\<close>.  A Python dict is
  a partial map.
\<close>

definition DIFFICULTIES :: "string \<rightharpoonup> int \<times> int \<times> int" where
  "DIFFICULTIES =
     [''Easy'' \<mapsto> (1200, 900, 30),
      ''Medium'' \<mapsto> (900, 700, 25),
      ''Hard'' \<mapsto> (650, 550, 20)]"

text \<open>
  A loaded image is opaque to the game logic; only its size matters to a scaling call.
  The three surface fields of a theme are \<^verbatim>\<open>None\<close> in the table as written and are
  filled by \<^verbatim>\<open>main()\<close> when an asset loads.
\<close>

datatype surface = Surface int int

type_synonym color = "int \<times> int \<times> int"

record Theme =
  bg_type :: string
  bg_colors :: "color \<times> color"
  bg_image_path :: "string option"
  bg_music_path :: "string option"
  mole_image_path :: "string option"
  hole_image_path :: "string option"
  bg_image_surface :: "surface option"
  mole_image_surface_raw :: "surface option"
  hole_image_surface_raw :: "surface option"

definition theme_Default :: Theme where
  "theme_Default =
     \<lparr>bg_type = ''gradient'',
      bg_colors = ((10, 70, 50), (230, 140, 70)),
      bg_image_path = None,
      bg_music_path = Some ''assets/sounds/bg_music.mp3'',
      mole_image_path = None,
      hole_image_path = None,
      bg_image_surface = None,
      mole_image_surface_raw = None,
      hole_image_surface_raw = None\<rparr>"

definition theme_Jungle :: Theme where
  "theme_Jungle =
     \<lparr>bg_type = ''image'',
      bg_colors = ((10, 60, 40), (40, 100, 60)),
      bg_image_path = Some ''assets/images/jungle_bg.png'',
      bg_music_path = Some ''assets/sounds/jungle_bg.mp3'',
      mole_image_path = Some ''assets/images/jungle_mole.png'',
      hole_image_path = Some ''assets/images/jungle_hole.png'',
      bg_image_surface = None,
      mole_image_surface_raw = None,
      hole_image_surface_raw = None\<rparr>"

definition theme_Beach :: Theme where
  "theme_Beach =
     \<lparr>bg_type = ''image'',
      bg_colors = ((30, 140, 200), (240, 220, 160)),
      bg_image_path = Some ''assets/images/beach_bg.png'',
      bg_music_path = Some ''assets/sounds/beach_bg.mp3'',
      mole_image_path = Some ''assets/images/beach_mole.png'',
      hole_image_path = Some ''assets/images/beach_hole.png'',
      bg_image_surface = None,
      mole_image_surface_raw = None,
      hole_image_surface_raw = None\<rparr>"

definition theme_Desert :: Theme where
  "theme_Desert =
     \<lparr>bg_type = ''image'',
      bg_colors = ((180, 140, 80), (240, 200, 130)),
      bg_image_path = Some ''assets/images/desert_bg.png'',
      bg_music_path = Some ''assets/sounds/desert_bg.mp3'',
      mole_image_path = Some ''assets/images/desert_mole.png'',
      hole_image_path = Some ''assets/images/desert_hole.png'',
      bg_image_surface = None,
      mole_image_surface_raw = None,
      hole_image_surface_raw = None\<rparr>"

definition THEMES :: "string \<rightharpoonup> Theme" where
  "THEMES =
     [''Default'' \<mapsto> theme_Default,
      ''Jungle'' \<mapsto> theme_Jungle,
      ''Beach'' \<mapsto> theme_Beach,
      ''Desert'' \<mapsto> theme_Desert]"

text \<open>
  The two lookups of \<^verbatim>\<open>run_game\<close>.  \<^verbatim>\<open>DIFFICULTIES[difficulty_name]\<close> is a
  subscript: a missing key raises \<^verbatim>\<open>KeyError\<close>.
  \<^verbatim>\<open>THEMES.get(theme_name, THEMES["Default"])\<close> first evaluates the default (itself a
  subscript) and then falls back to it.
\<close>

datatype py_error = KeyError string

definition subscript :: "(string \<rightharpoonup> 'v) \<Rightarrow> string \<Rightarrow> py_error + 'v" where
  "subscript d k = (case d k of None \<Rightarrow> Inl (KeyError k) | Some v \<Rightarrow> Inr v)"

definition dict_get :: "(string \<rightharpoonup> 'v) \<Rightarrow> string \<Rightarrow> 'v \<Rightarrow> 'v" where
  "dict_get d k dflt = (case d k of None \<Rightarrow> dflt | Some v \<Rightarrow> v)"

section \<open>Rectangles\<close>

text \<open>
  The two operations of \<^verbatim>\<open>pygame.Rect\<close> the game uses, as pygame defines them.
  \<^verbatim>\<open>surface.get_rect(center=pos)\<close> is the rectangle of the surface's size whose
  top-left corner is \<open>(cx - w div 2, cy - h div 2)\<close>.  \<^verbatim>\<open>collidepoint\<close> holds for
  \<open>x \<le> px < x + w\<close> and \<open>y \<le> py < y + h\<close>: a point on the right or bottom edge is
  outside.
\<close>

record Rect =
  rect_x :: int
  rect_y :: int
  rect_w :: int
  rect_h :: int

definition get_rect_center :: "int \<times> int \<Rightarrow> int \<times> int \<Rightarrow> Rect" where
  "get_rect_center sz ctr =
     \<lparr>rect_x = fst ctr - fst sz div 2,
      rect_y = snd ctr - snd sz div 2,
      rect_w = fst sz,
      rect_h = snd sz\<rparr>"

definition collidepoint :: "Rect \<Rightarrow> int \<times> int \<Rightarrow> bool" where
  "collidepoint r p \<longleftrightarrow>
     rect_x r \<le> fst p \<and> fst p < rect_x r + rect_w r \<and>
     rect_y r \<le> snd p \<and> snd p < rect_y r + rect_h r"

section \<open>The mole\<close>

text \<open>
  \<^verbatim>\<open>class Mole\<close>.  With or without a sprite the image is \<open>2 * radius\<close> wide and high
  (\<^verbatim>\<open>run_game\<close> scales the sprite to that size), so \<^verbatim>\<open>rect\<close> is the same on both
  paths; the image itself only matters to drawing.
\<close>

record Mole =
  base_radius :: int
  visible_ms :: int
  rect :: Rect
  active :: bool
  spawn_time :: int

definition Mole_init :: "int \<times> int \<Rightarrow> int \<Rightarrow> int \<Rightarrow> Mole" where
  "Mole_init pos radius vis =
     \<lparr>base_radius = radius,
      visible_ms = vis,
      rect = get_rect_center (radius * 2, radius * 2) pos,
      active = False,
      spawn_time = 0\<rparr>"

definition activate :: "Mole \<Rightarrow> int \<Rightarrow> Mole" where
  "activate m now = m\<lparr>active := True, spawn_time := now\<rparr>"

definition deactivate :: "Mole \<Rightarrow> Mole" where
  "deactivate m = m\<lparr>active := False\<rparr>"

definition update :: "Mole \<Rightarrow> int \<Rightarrow> Mole" where
  "update m now =
     (if active m \<and> now - spawn_time m > visible_ms m then deactivate m else m)"

section \<open>One game session\<close>

text \<open>
  What \<^verbatim>\<open>run_game\<close> fixes before its loop, and the variables the loop changes.
  \<^verbatim>\<open>active_mole\<close> is a reference to one of the objects of \<^verbatim>\<open>mole_list\<close>: it is
  the index of that object, so a change made through either name is seen through the
  other.  The Exit button's rectangle depends on the rendered size of the label and
  is a parameter.
\<close>

record config =
  mole_visible_ms :: int
  spawn_interval_ms :: int
  game_length_seconds :: int
  start_time_ms :: int
  exit_rect :: Rect
  theme :: Theme

record session =
  mole_list :: "Mole list"
  score :: int
  lives :: int
  last_spawn_time :: int
  active_mole :: "nat option"
  game_over :: bool

definition run_game_setup ::
  "string \<Rightarrow> string \<Rightarrow> Rect \<Rightarrow> int \<Rightarrow> py_error + (config \<times> session)" where
  "run_game_setup difficulty_name theme_name exit_button start_ms =
     (case subscript DIFFICULTIES difficulty_name of
        Inl e \<Rightarrow> Inl e
      | Inr (vis, interval, len) \<Rightarrow>
          (let (positions, hole_radius) = create_holes in
           case subscript THEMES ''Default'' of
             Inl e \<Rightarrow> Inl e
           | Inr dflt \<Rightarrow>
               Inr (\<lparr>mole_visible_ms = vis,
                     spawn_interval_ms = interval,
                     game_length_seconds = len,
                     start_time_ms = start_ms,
                     exit_rect = exit_button,
                     theme = dict_get THEMES theme_name dflt\<rparr>,
                    \<lparr>mole_list = map (\<lambda>pos. Mole_init pos hole_radius vis) positions,
                     score = 0,
                     lives = 3,
                     last_spawn_time = 0,
                     active_mole = None,
                     game_over = False\<rparr>)))"

subsection \<open>Inputs of a frame and what a frame plays\<close>

text \<open>
  An event of \<^verbatim>\<open>pygame.event.get()\<close>.  A button press carries its button number and
  the position \<^verbatim>\<open>pygame.mouse.get_pos()\<close> returns while that event is handled; a key
  press carries its key code.
\<close>

datatype event =
  QUIT
| MOUSEBUTTONDOWN int "int \<times> int"
| KEYDOWN int
| OTHER

definition K_ESCAPE :: int where
  "K_ESCAPE = 27"

datatype cue = MusicStop | GameOverSound | ClickSound | SplatSound

text \<open>
  A frame either falls through to the next iteration of \<^verbatim>\<open>while True\<close>, or
  \<^verbatim>\<open>run_game\<close> returns to the menu, or \<^verbatim>\<open>sys.exit()\<close> ends the process.
\<close>

datatype outcome = Continue session | ReturnToMenu | ProcessExit

record frame_input =
  now_ms :: int
  events :: "event list"
  draw :: nat

subsection \<open>Time and the game-over condition\<close>

text \<open>
  \<^verbatim>\<open>int(x)\<close> truncates toward zero.  \<^verbatim>\<open>elapsed_s\<close> is a whole number of
  milliseconds divided by \<open>1000.0\<close>, so \<^verbatim>\<open>game_length_seconds - elapsed_s\<close> is
  \<open>(1000 * game_length_seconds - elapsed_ms) / 1000\<close>: it is either a whole number, and
  then the floating-point value is exact, or at least \<open>1/1000\<close> away from one, far
  more than the rounding error.  The truncation is therefore computed on the
  milliseconds.
\<close>

definition trunc_div :: "int \<Rightarrow> int \<Rightarrow> int" where
  "trunc_div a b = (if 0 \<le> a then a div b else - ((- a) div b))"

definition remaining_s :: "config \<Rightarrow> int \<Rightarrow> int" where
  "remaining_s c now =
     max 0 (trunc_div (1000 * game_length_seconds c - (now - start_time_ms c)) 1000)"

definition game_over_check :: "config \<Rightarrow> session \<Rightarrow> int \<Rightarrow> session \<times> cue list" where
  "game_over_check c s now =
     (if (remaining_s c now \<le> 0 \<or> lives s \<le> 0) \<and> \<not> game_over s
      then (s\<lparr>game_over := True\<rparr>, [MusicStop, GameOverSound])
      else (s, []))"

subsection \<open>Event handling\<close>

text \<open>
  The \<^verbatim>\<open>for mole in mole_list\<close> loop with its \<^verbatim>\<open>break\<close>: the result is the
  changed list when some mole was hit (\<^verbatim>\<open>hit_any\<close>), and \<open>None\<close> otherwise.
\<close>

fun hit_scan :: "int \<times> int \<Rightarrow> Mole list \<Rightarrow> Mole list option" where
  "hit_scan p [] = None"
| "hit_scan p (m # ms) =
     (if active m \<and> collidepoint (rect m) p then Some (deactivate m # ms)
      else map_option ((#) m) (hit_scan p ms))"

definition click_moles :: "session \<Rightarrow> int \<times> int \<Rightarrow> session \<times> cue list" where
  "click_moles s p =
     (case hit_scan p (mole_list s) of
        Some ms \<Rightarrow> (s\<lparr>score := score s + 1, mole_list := ms\<rparr>, [SplatSound])
      | None \<Rightarrow> (s\<lparr>lives := lives s - 1\<rparr>, []))"

fun handle_event :: "config \<Rightarrow> session \<Rightarrow> event \<Rightarrow> outcome \<times> cue list" where
  "handle_event c s QUIT = (ProcessExit, [])"
| "handle_event c s (MOUSEBUTTONDOWN button mouse_pos) =
     (if button = 1 then
        (if collidepoint (exit_rect c) mouse_pos then (ReturnToMenu, [ClickSound])
         else if \<not> game_over s then
           (let (s', fx) = click_moles s mouse_pos in (Continue s', fx))
         else (Continue s, []))
      else (Continue s, []))"
| "handle_event c s (KEYDOWN key) =
     (if key = K_ESCAPE then (ReturnToMenu, []) else (Continue s, []))"
| "handle_event c s OTHER = (Continue s, [])"

fun handle_events :: "config \<Rightarrow> session \<Rightarrow> event list \<Rightarrow> outcome \<times> cue list" where
  "handle_events c s [] = (Continue s, [])"
| "handle_events c s (e # es) =
     (case handle_event c s e of
        (Continue s', fx) \<Rightarrow>
          (let (r, fx') = handle_events c s' es in (r, fx @ fx'))
      | (r, fx) \<Rightarrow> (r, fx))"

subsection \<open>Game logic\<close>

text \<open>
  \<^verbatim>\<open>random.choice(mole_list)\<close> returns \<^verbatim>\<open>mole_list[k]\<close> for a random
  \<open>k < len(mole_list)\<close>.  The random draw is an input of the frame, reduced into that
  range.
\<close>

definition spawn_new_mole :: "config \<Rightarrow> session \<Rightarrow> int \<Rightarrow> nat \<Rightarrow> session" where
  "spawn_new_mole c s now d =
     (let ms = (case active_mole s of
                  None \<Rightarrow> mole_list s
                | Some i \<Rightarrow> (mole_list s)[i := deactivate (mole_list s ! i)]);
          k = d mod length ms;
          ms' = ms[k := activate ((ms ! k)\<lparr>visible_ms := mole_visible_ms c\<rparr>) now]
      in s\<lparr>mole_list := ms', active_mole := Some k\<rparr>)"

definition spawn_step :: "config \<Rightarrow> session \<Rightarrow> int \<Rightarrow> nat \<Rightarrow> session" where
  "spawn_step c s now d =
     (if \<not> game_over s \<and> now - last_spawn_time s > spawn_interval_ms c
      then (spawn_new_mole c s now d)\<lparr>last_spawn_time := now\<rparr>
      else s)"

text \<open>\<^verbatim>\<open>moles.update(now_ms)\<close> calls \<^verbatim>\<open>update\<close> on every mole of the group.\<close>

definition moles_update :: "session \<Rightarrow> int \<Rightarrow> session" where
  "moles_update s now = s\<lparr>mole_list := map (\<lambda>m. update m now) (mole_list s)\<rparr>"

subsection \<open>The loop\<close>

text \<open>One iteration of \<^verbatim>\<open>while True\<close>; drawing reads the state and changes nothing.\<close>

definition frame :: "config \<Rightarrow> session \<Rightarrow> frame_input \<Rightarrow> outcome \<times> cue list" where
  "frame c s inp =
     (let (s1, fx1) = game_over_check c s (now_ms inp) in
      case handle_events c s1 (events inp) of
        (Continue s2, fx2) \<Rightarrow>
          (Continue (moles_update (spawn_step c s2 (now_ms inp) (draw inp)) (now_ms inp)),
           fx1 @ fx2)
      | (r, fx2) \<Rightarrow> (r, fx1 @ fx2))"

text \<open>
  The loop over the frames it is given.  \<^verbatim>\<open>run_game\<close> has no other way out than the
  two returns and \<^verbatim>\<open>sys.exit()\<close>, so after any finite number of frames it is either
  still looping, with a state, or it has left.
\<close>

fun run_frames :: "config \<Rightarrow> session \<Rightarrow> frame_input list \<Rightarrow> outcome \<times> cue list" where
  "run_frames c s [] = (Continue s, [])"
| "run_frames c s (f # fs) =
     (case frame c s f of
        (Continue s', fx) \<Rightarrow>
          (let (r, fx') = run_frames c s' fs in (r, fx @ fx'))
      | (r, fx) \<Rightarrow> (r, fx))"

definition run_game ::
  "string \<Rightarrow> string \<Rightarrow> Rect \<Rightarrow> int \<Rightarrow> frame_input list \<Rightarrow> py_error + (outcome \<times> cue list)" where
  "run_game difficulty_name theme_name exit_button start_ms fs =
     (case run_game_setup difficulty_name theme_name exit_button start_ms of
        Inl e \<Rightarrow> Inl e
      | Inr (c, s) \<Rightarrow> Inr (run_frames c s fs))"

subsection \<open>Observing a session\<close>

text \<open>The state of a session that is still in its loop, if it is.\<close>

definition state_of :: "py_error + (outcome \<times> cue list) \<Rightarrow> session option" where
  "state_of r = (case r of Inr (Continue s, fx) \<Rightarrow> Some s | _ \<Rightarrow> None)"

text \<open>The number of presses of the primary button in one batch of events.\<close>

fun is_primary_press :: "event \<Rightarrow> bool" where
  "is_primary_press (MOUSEBUTTONDOWN button mouse_pos) = (button = 1)"
| "is_primary_press e = False"

definition presses :: "event list \<Rightarrow> nat" where
  "presses es = length (filter is_primary_press es)"

subsection \<open>A sample session\<close>

text \<open>
  The Easy preset with the default theme, started 3000 ms after \<^verbatim>\<open>pygame.init()\<close>,
  with an Exit button of 70 by 44 pixels; and that session after its first frame at
  3016 ms, in which the draw was 0 and the first mole came up.
\<close>

definition sample_exit_rect :: Rect where
  "sample_exit_rect = \<lparr>rect_x = 720, rect_y = 70, rect_w = 70, rect_h = 44\<rparr>"

definition sample_config :: config where
  "sample_config =
     \<lparr>mole_visible_ms = 1200,
      spawn_interval_ms = 900,
      game_length_seconds = 30,
      start_time_ms = 3000,
      exit_rect = sample_exit_rect,
      theme = theme_Default\<rparr>"

definition sample_start :: session where
  "sample_start =
     \<lparr>mole_list = map (\<lambda>pos. Mole_init pos 44 1200) (fst create_holes),
      score = 0,
      lives = 3,
      last_spawn_time = 0,
      active_mole = None,
      game_over = False\<rparr>"

definition sample_session :: session where
  "sample_session =
     \<lparr>mole_list =
        (map (\<lambda>pos. Mole_init pos 44 1200) (fst create_holes))
          [0 := activate (Mole_init (200, 166) 44 1200) 3016],
      score = 0,
      lives = 3,
      last_spawn_time = 3016,
      active_mole = Some 0,
      game_over = False\<rparr>"

section \<open>The layout of the 800 x 600 window\<close>

lemma create_holes_value:
  "create_holes =
     ([(200, 166), (400, 166), (600, 166),
       (200, 299), (400, 299), (600, 299),
       (200, 432), (400, 432), (600, 432)], 44)"
  by (simp add: create_holes_def WINDOW_WIDTH_def WINDOW_HEIGHT_def GRID_ROWS_def
      GRID_COLS_def Let_def upto.simps)

text \<open>
  C8.  The layout function takes no argument and reads only the window and grid
  constants.  For the 800 x 600 window and the 3 x 3 grid it returns nine positions,
  row by row, all distinct and strictly inside the window; the position of
  (row, col) is the centre of that cell of the grid inset by \<open>WINDOW_WIDTH div 8\<close>
  and \<open>WINDOW_HEIGHT div 6\<close>; the radius is \<open>min cell_w cell_h div 3\<close>, which is 44
  and positive.
\<close>

theorem create_holes_layout:
  "fst create_holes =
     [(200, 166), (400, 166), (600, 166),
      (200, 299), (400, 299), (600, 299),
      (200, 432), (400, 432), (600, 432)]
   \<and> snd create_holes = 44
   \<and> length (fst create_holes) = nat (GRID_ROWS * GRID_COLS)
   \<and> distinct (fst create_holes)
   \<and> (\<forall>p \<in> set (fst create_holes).
         0 < fst p \<and> fst p < WINDOW_WIDTH \<and> 0 < snd p \<and> snd p < WINDOW_HEIGHT)
   \<and> (\<forall>row col. 0 \<le> row \<and> row < GRID_ROWS \<and> 0 \<le> col \<and> col < GRID_COLS \<longrightarrow>
         fst create_holes ! nat (row * GRID_COLS + col) =
           (let mx = WINDOW_WIDTH div 8; my = WINDOW_HEIGHT div 6;
                cw = (WINDOW_WIDTH - 2 * mx) div GRID_COLS;
                ch = (WINDOW_HEIGHT - 2 * my) div GRID_ROWS
            in (mx + cw * col + cw div 2, my + ch * row + ch div 2)))
   \<and> 0 < snd create_holes
   \<and> snd create_holes =
        (let mx = WINDOW_WIDTH div 8; my = WINDOW_HEIGHT div 6;
             cw = (WINDOW_WIDTH - 2 * mx) div GRID_COLS;
             ch = (WINDOW_HEIGHT - 2 * my) div GRID_ROWS
         in min cw ch div 3)"
proof -
  have idx: "fst create_holes ! nat (row * GRID_COLS + col) =
           (let mx = WINDOW_WIDTH div 8; my = WINDOW_HEIGHT div 6;
                cw = (WINDOW_WIDTH - 2 * mx) div GRID_COLS;
                ch = (WINDOW_HEIGHT - 2 * my) div GRID_ROWS
            in (mx + cw * col + cw div 2, my + ch * row + ch div 2))"
    if "0 \<le> row \<and> row < GRID_ROWS \<and> 0 \<le> col \<and> col < GRID_COLS" for row col
  proof -
    from that have "row \<in> {0, 1, 2}" "col \<in> {0, 1, 2}"
      by (auto simp: GRID_ROWS_def GRID_COLS_def)
    then show ?thesis
      by (auto simp: create_holes_value WINDOW_WIDTH_def WINDOW_HEIGHT_def GRID_ROWS_def
          GRID_COLS_def Let_def)
  qed
  show ?thesis
    using idx
    by (simp add: create_holes_value WINDOW_WIDTH_def WINDOW_HEIGHT_def GRID_ROWS_def
        GRID_COLS_def Let_def)
qed

theorem create_holes_layout_witness:
  "0 \<le> (1::int) \<and> (1::int) < GRID_ROWS \<and> 0 \<le> (2::int) \<and> (2::int) < GRID_COLS
   \<and> fst create_holes ! 5 = (600, 299)
   \<and> (600, 299) \<in> set (fst create_holes)
   \<and> (600::int) < WINDOW_WIDTH"
proof -
  have h: "0 \<le> (1::int) \<and> (1::int) < GRID_ROWS \<and> 0 \<le> (2::int) \<and> (2::int) < GRID_COLS"
    by (simp add: GRID_ROWS_def GRID_COLS_def)
  have m: "((600::int), (299::int)) \<in> set (fst create_holes)"
    by (simp add: create_holes_value)
  from create_holes_layout
  have a: "\<forall>row col. 0 \<le> row \<and> row < GRID_ROWS \<and> 0 \<le> col \<and> col < GRID_COLS \<longrightarrow>
         fst create_holes ! nat (row * GRID_COLS + col) =
           (let mx = WINDOW_WIDTH div 8; my = WINDOW_HEIGHT div 6;
                cw = (WINDOW_WIDTH - 2 * mx) div GRID_COLS;
                ch = (WINDOW_HEIGHT - 2 * my) div GRID_ROWS
            in (mx + cw * col + cw div 2, my + ch * row + ch div 2))"
    and b: "\<forall>p \<in> set (fst create_holes).
         0 < fst p \<and> fst p < WINDOW_WIDTH \<and> 0 < snd p \<and> snd p < WINDOW_HEIGHT"
    by blast+
  from a h have "fst create_holes ! nat (1 * GRID_COLS + 2) =
           (let mx = WINDOW_WIDTH div 8; my = WINDOW_HEIGHT div 6;
                cw = (WINDOW_WIDTH - 2 * mx) div GRID_COLS;
                ch = (WINDOW_HEIGHT - 2 * my) div GRID_ROWS
            in (mx + cw * 2 + cw div 2, my + ch * 1 + ch div 2))"
    by blast
  then have "fst create_holes ! 5 = (600, 299)"
    by (simp add: WINDOW_WIDTH_def WINDOW_HEIGHT_def GRID_ROWS_def GRID_COLS_def Let_def)
  moreover from b m have "(600::int) < WINDOW_WIDTH"
    by fastforce
  ultimately show ?thesis
    using h m by simp
qed

section \<open>Clicks on moles\<close>

text \<open>The scan stops at the first active mole whose rectangle contains the point.\<close>

lemma hit_scan_None:
  "hit_scan p ms = None \<longleftrightarrow> (\<forall>m \<in> set ms. \<not> (active m \<and> collidepoint (rect m) p))"
  by (induction ms) auto

lemma hit_scan_first:
  "i < length ms \<Longrightarrow> active (ms ! i) \<Longrightarrow> collidepoint (rect (ms ! i)) p \<Longrightarrow>
   (\<And>j. j < i \<Longrightarrow> \<not> (active (ms ! j) \<and> collidepoint (rect (ms ! j)) p)) \<Longrightarrow>
   hit_scan p ms = Some (ms[i := deactivate (ms ! i)])"
proof (induction ms arbitrary: i)
  case Nil
  then show ?case by simp
next
  case (Cons m ms)
  show ?case
  proof (cases i)
    case 0
    with Cons.prems show ?thesis by simp
  next
    case (Suc k)
    from Cons.prems(4)[of 0] Suc
    have m: "\<not> (active m \<and> collidepoint (rect m) p)" by simp
    have "hit_scan p ms = Some (ms[k := deactivate (ms ! k)])"
    proof (rule Cons.IH)
      show "k < length ms" using Cons.prems(1) Suc by simp
      show "active (ms ! k)" using Cons.prems(2) Suc by simp
      show "collidepoint (rect (ms ! k)) p" using Cons.prems(3) Suc by simp
      show "\<not> (active (ms ! j) \<and> collidepoint (rect (ms ! j)) p)" if "j < k" for j
        using Cons.prems(4)[of "Suc j"] that Suc by simp
    qed
    with m Suc show ?thesis by auto
  qed
qed

lemma hit_scan_Some:
  "hit_scan p ms = Some ms' \<Longrightarrow>
   \<exists>i < length ms. active (ms ! i) \<and> collidepoint (rect (ms ! i)) p
     \<and> (\<forall>j < i. \<not> (active (ms ! j) \<and> collidepoint (rect (ms ! j)) p))
     \<and> ms' = ms[i := deactivate (ms ! i)]"
proof (induction ms arbitrary: ms')
  case Nil
  then show ?case by simp
next
  case (Cons m ms)
  show ?case
  proof (cases "active m \<and> collidepoint (rect m) p")
    case True
    with Cons.prems have "ms' = (m # ms)[0 := deactivate ((m # ms) ! 0)]" by auto
    with True show ?thesis by (intro exI[of _ 0]) simp
  next
    case False
    with Cons.prems obtain ms2 where s: "hit_scan p ms = Some ms2" and e: "ms' = m # ms2"
      by auto
    from Cons.IH[OF s] obtain i where i: "i < length ms" "active (ms ! i)"
      "collidepoint (rect (ms ! i)) p"
      "\<forall>j < i. \<not> (active (ms ! j) \<and> collidepoint (rect (ms ! j)) p)"
      "ms2 = ms[i := deactivate (ms ! i)]" by blast
    have "\<forall>j < Suc i. \<not> (active ((m # ms) ! j) \<and> collidepoint (rect ((m # ms) ! j)) p)"
      using i(4) False by (auto simp: less_Suc_eq_0_disj)
    with i e show ?thesis by (intro exI[of _ "Suc i"]) simp
  qed
qed

lemma collide_square:
  "collidepoint (get_rect_center (r * 2, r * 2) (x, y)) (px, py) \<longleftrightarrow>
     x - r \<le> px \<and> px < x + r \<and> y - r \<le> py \<and> py < y + r"
  by (auto simp: collidepoint_def get_rect_center_def)

section \<open>The sample session is a session\<close>

lemmas session_eval = run_game_def run_game_setup_def subscript_def DIFFICULTIES_def
  THEMES_def dict_get_def create_holes_value frame_def game_over_check_def remaining_s_def
  trunc_div_def spawn_step_def spawn_new_mole_def moles_update_def update_def activate_def
  deactivate_def Mole_init_def get_rect_center_def collidepoint_def click_moles_def
  state_of_def K_ESCAPE_def Let_def sample_exit_rect_def sample_config_def sample_start_def
  sample_session_def

lemma sample_setup:
  "run_game_setup ''Easy'' ''Default'' sample_exit_rect 3000 = Inr (sample_config, sample_start)"
  by (simp add: session_eval)

lemma sample_first_frame:
  "run_frames sample_config sample_start [\<lparr>now_ms = 3016, events = [], draw = 0\<rparr>] =
     (Continue sample_session, [])"
  by (simp add: session_eval)

lemma press_first_hit:
  assumes "\<not> game_over s" and "\<not> collidepoint (exit_rect c) p"
    and "i < length (mole_list s)" and "active (mole_list s ! i)"
    and "collidepoint (rect (mole_list s ! i)) p"
    and "\<And>j. j < i \<Longrightarrow> \<not> (active (mole_list s ! j) \<and> collidepoint (rect (mole_list s ! j)) p)"
  shows "handle_event c s (MOUSEBUTTONDOWN 1 p) =
     (Continue (s\<lparr>score := score s + 1,
                  mole_list := (mole_list s)[i := deactivate (mole_list s ! i)]\<rparr>),
      [SplatSound])"
proof -
  have "hit_scan p (mole_list s) = Some ((mole_list s)[i := deactivate (mole_list s ! i)])"
    using assms(3-6) by (rule hit_scan_first)
  with assms(1,2) show ?thesis
    by (simp add: click_moles_def)
qed

lemma press_miss:
  assumes "\<not> game_over s" and "\<not> collidepoint (exit_rect c) p"
    and "\<forall>m \<in> set (mole_list s). \<not> (active m \<and> collidepoint (rect m) p)"
  shows "handle_event c s (MOUSEBUTTONDOWN 1 p) = (Continue (s\<lparr>lives := lives s - 1\<rparr>), [])"
proof -
  have "hit_scan p (mole_list s) = None"
    using assms(3) by (simp add: hit_scan_None)
  with assms(1,2) show ?thesis
    by (simp add: click_moles_def)
qed

lemma only_active_miss:
  assumes "i < length ms" and "\<forall>j < length ms. j \<noteq> i \<longrightarrow> \<not> active (ms ! j)"
    and "\<not> collidepoint (rect (ms ! i)) p"
  shows "\<forall>m \<in> set ms. \<not> (active m \<and> collidepoint (rect m) p)"
proof
  fix m assume "m \<in> set ms"
  then obtain j where j: "j < length ms" "m = ms ! j"
    by (auto simp: in_set_conv_nth)
  show "\<not> (active m \<and> collidepoint (rect m) p)"
  proof (cases "j = i")
    case True
    with j assms(3) show ?thesis by simp
  next
    case False
    with j assms(2) show ?thesis by simp
  qed
qed

text \<open>
  C7.  A primary press while the game is running and outside the Exit button scans the
  moles in creation order.  At the first active mole whose rectangle contains the
  point the score goes up by one, that mole is deactivated and the splat sound plays;
  when no active mole contains the point a life is lost and nothing plays.  With a
  single active mole at \<open>(x, y)\<close> of radius \<open>r > 0\<close>, a press at \<open>(x, y)\<close> is such a
  hit and a press at \<open>(x + 10 * r, y)\<close> is such a miss.
\<close>

theorem primary_press_hit_or_miss:
  assumes "\<not> game_over s"
  shows
    "(\<forall>p i. \<not> collidepoint (exit_rect c) p \<and> i < length (mole_list s)
        \<and> active (mole_list s ! i) \<and> collidepoint (rect (mole_list s ! i)) p
        \<and> (\<forall>j < i. \<not> (active (mole_list s ! j) \<and> collidepoint (rect (mole_list s ! j)) p))
      \<longrightarrow> handle_event c s (MOUSEBUTTONDOWN 1 p) =
            (Continue (s\<lparr>score := score s + 1,
                         mole_list := (mole_list s)[i := deactivate (mole_list s ! i)]\<rparr>),
             [SplatSound])
          \<and> \<not> active (deactivate (mole_list s ! i)))
     \<and> (\<forall>p. \<not> collidepoint (exit_rect c) p
        \<and> (\<forall>m \<in> set (mole_list s). \<not> (active m \<and> collidepoint (rect m) p))
      \<longrightarrow> handle_event c s (MOUSEBUTTONDOWN 1 p) = (Continue (s\<lparr>lives := lives s - 1\<rparr>), []))
     \<and> (\<forall>i x y r. 0 < r \<and> i < length (mole_list s)
        \<and> rect (mole_list s ! i) = get_rect_center (r * 2, r * 2) (x, y)
        \<and> active (mole_list s ! i)
        \<and> (\<forall>j < length (mole_list s). j \<noteq> i \<longrightarrow> \<not> active (mole_list s ! j))
      \<longrightarrow> (\<not> collidepoint (exit_rect c) (x, y) \<longrightarrow>
             handle_event c s (MOUSEBUTTONDOWN 1 (x, y)) =
               (Continue (s\<lparr>score := score s + 1,
                            mole_list := (mole_list s)[i := deactivate (mole_list s ! i)]\<rparr>),
                [SplatSound]))
          \<and> (\<not> collidepoint (exit_rect c) (x + 10 * r, y) \<longrightarrow>
             handle_event c s (MOUSEBUTTONDOWN 1 (x + 10 * r, y)) =
               (Continue (s\<lparr>lives := lives s - 1\<rparr>), [])))"
proof (intro conjI allI impI)
  fix p i
  assume h: "\<not> collidepoint (exit_rect c) p \<and> i < length (mole_list s)
        \<and> active (mole_list s ! i) \<and> collidepoint (rect (mole_list s ! i)) p
        \<and> (\<forall>j < i. \<not> (active (mole_list s ! j) \<and> collidepoint (rect (mole_list s ! j)) p))"
  then show "handle_event c s (MOUSEBUTTONDOWN 1 p) =
            (Continue (s\<lparr>score := score s + 1,
                         mole_list := (mole_list s)[i := deactivate (mole_list s ! i)]\<rparr>),
             [SplatSound])"
    using assms by (intro press_first_hit) auto
  show "\<not> active (deactivate (mole_list s ! i))"
    by (simp add: deactivate_def)
next
  fix p
  assume "\<not> collidepoint (exit_rect c) p
        \<and> (\<forall>m \<in> set (mole_list s). \<not> (active m \<and> collidepoint (rect m) p))"
  then show "handle_event c s (MOUSEBUTTONDOWN 1 p) = (Continue (s\<lparr>lives := lives s - 1\<rparr>), [])"
    using assms by (intro press_miss) auto
next
  fix i x y r
  assume h: "0 < r \<and> i < length (mole_list s)
        \<and> rect (mole_list s ! i) = get_rect_center (r * 2, r * 2) (x, y)
        \<and> active (mole_list s ! i)
        \<and> (\<forall>j < length (mole_list s). j \<noteq> i \<longrightarrow> \<not> active (mole_list s ! j))"
  assume e: "\<not> collidepoint (exit_rect c) (x, y)"
  from h have cover: "collidepoint (rect (mole_list s ! i)) (x, y)"
    by (simp add: collide_square)
  show "handle_event c s (MOUSEBUTTONDOWN 1 (x, y)) =
               (Continue (s\<lparr>score := score s + 1,
                            mole_list := (mole_list s)[i := deactivate (mole_list s ! i)]\<rparr>),
                [SplatSound])"
  proof (rule press_first_hit[OF assms e])
    show "i < length (mole_list s)" using h by simp
    show "active (mole_list s ! i)" using h by simp
    show "collidepoint (rect (mole_list s ! i)) (x, y)" by (rule cover)
    show "\<not> (active (mole_list s ! j) \<and> collidepoint (rect (mole_list s ! j)) (x, y))"
      if "j < i" for j
      using h that by auto
  qed
next
  fix i x y r
  assume h: "0 < r \<and> i < length (mole_list s)
        \<and> rect (mole_list s ! i) = get_rect_center (r * 2, r * 2) (x, y)
        \<and> active (mole_list s ! i)
        \<and> (\<forall>j < length (mole_list s). j \<noteq> i \<longrightarrow> \<not> active (mole_list s ! j))"
  assume e: "\<not> collidepoint (exit_rect c) (x + 10 * r, y)"
  from h have "\<not> collidepoint (rect (mole_list s ! i)) (x + 10 * r, y)"
    by (simp add: collide_square)
  with h have "\<forall>m \<in> set (mole_list s). \<not> (active m \<and> collidepoint (rect m) (x + 10 * r, y))"
    by (intro only_active_miss[of i]) auto
  with assms e show "handle_event c s (MOUSEBUTTONDOWN 1 (x + 10 * r, y)) =
               (Continue (s\<lparr>lives := lives s - 1\<rparr>), [])"
    by (intro press_miss) auto
qed

theorem primary_press_hit_or_miss_witness:
  "\<not> game_over sample_session
   \<and> (0::int) < 44 \<and> (0::nat) < length (mole_list sample_session)
   \<and> rect (mole_list sample_session ! 0) = get_rect_center (44 * 2, 44 * 2) (200, 166)
   \<and> active (mole_list sample_session ! 0)
   \<and> filter active (mole_list sample_session) = [mole_list sample_session ! 0]
   \<and> \<not> collidepoint (exit_rect sample_config) (200, 166)
   \<and> \<not> collidepoint (exit_rect sample_config) (200 + 10 * 44, 166)
   \<and> handle_event sample_config sample_session (MOUSEBUTTONDOWN 1 (200, 166)) =
       (Continue (sample_session\<lparr>score := 1,
          mole_list := (mole_list sample_session)[0 := deactivate (mole_list sample_session ! 0)]\<rparr>),
        [SplatSound])
   \<and> handle_event sample_config sample_session (MOUSEBUTTONDOWN 1 (640, 166)) =
       (Continue (sample_session\<lparr>lives := 2\<rparr>), [])"
proof -
  have g: "\<not> game_over sample_session"
    by (simp add: sample_session_def)
  have others: "\<forall>j < length (mole_list sample_session). j \<noteq> 0 \<longrightarrow> \<not> active (mole_list sample_session ! j)"
    by (simp add: sample_session_def create_holes_value Mole_init_def activate_def
        nth_Cons' less_Suc_eq all_conj_distrib)
  have h: "(0::int) < 44 \<and> (0::nat) < length (mole_list sample_session)
     \<and> rect (mole_list sample_session ! 0) = get_rect_center (44 * 2, 44 * 2) (200, 166)
     \<and> active (mole_list sample_session ! 0)
     \<and> (\<forall>j < length (mole_list sample_session). j \<noteq> 0 \<longrightarrow> \<not> active (mole_list sample_session ! j))"
    using others
    by (simp add: sample_session_def create_holes_value Mole_init_def activate_def)
  have e: "\<not> collidepoint (exit_rect sample_config) (200, 166)"
    "\<not> collidepoint (exit_rect sample_config) (200 + 10 * 44, 166)"
    by (simp_all add: sample_config_def sample_exit_rect_def collidepoint_def)
  from primary_press_hit_or_miss[OF g, of sample_config, THEN conjunct2, THEN conjunct2,
      rule_format, OF h]
  have "handle_event sample_config sample_session (MOUSEBUTTONDOWN 1 (200, 166)) =
       (Continue (sample_session\<lparr>score := score sample_session + 1,
          mole_list := (mole_list sample_session)[0 := deactivate (mole_list sample_session ! 0)]\<rparr>),
        [SplatSound])"
    and "handle_event sample_config sample_session (MOUSEBUTTONDOWN 1 (200 + 10 * 44, 166)) =
       (Continue (sample_session\<lparr>lives := lives sample_session - 1\<rparr>), [])"
    using e by blast+
  moreover have "score sample_session + 1 = 1" "lives sample_session - 1 = 2"
    by (simp_all add: sample_session_def)
  moreover have "filter active (mole_list sample_session) = [mole_list sample_session ! 0]"
    by (simp add: sample_session_def create_holes_value Mole_init_def activate_def)
  ultimately show ?thesis
    using g h e by simp
qed

lemma press_some_hit:
  assumes "\<not> game_over s" and "\<not> collidepoint (exit_rect c) p"
    and "i < length (mole_list s)" and "active (mole_list s ! i)"
    and "collidepoint (rect (mole_list s ! i)) p"
  shows "\<exists>ms'. handle_event c s (MOUSEBUTTONDOWN 1 p) =
     (Continue (s\<lparr>score := score s + 1, mole_list := ms'\<rparr>), [SplatSound])"
proof -
  have "mole_list s ! i \<in> set (mole_list s)"
    using assms(3) by simp
  with assms(4,5) have "hit_scan p (mole_list s) \<noteq> None"
    by (auto simp: hit_scan_None)
  then obtain ms' where "hit_scan p (mole_list s) = Some ms'"
    by blast
  with assms(1,2) show ?thesis
    by (intro exI[of _ ms']) (simp add: click_moles_def)
qed

text \<open>
  C10 (as amended).  The hit region of an active mole is the square of side
  \<open>2 * radius\<close> centred at its position, without its right and bottom edges: a
  press registers as a hit when its offsets \<open>dx\<close>, \<open>dy\<close> from the centre satisfy
  \<open>- r \<le> dx < r\<close> and \<open>- r \<le> dy < r\<close>, also where the point is farther than \<open>r\<close> from
  the centre (the corner \<open>(x - r, y - r)\<close> is); with no other mole active, a press
  outside that square is a miss.
\<close>

theorem hit_region_half_open_square:
  assumes "\<not> game_over s" and "\<not> collidepoint (exit_rect c) (px, py)"
    and "i < length (mole_list s)" and "active (mole_list s ! i)"
    and "rect (mole_list s ! i) = get_rect_center (r * 2, r * 2) (x, y)"
  shows
    "(collidepoint (rect (mole_list s ! i)) (px, py) \<longleftrightarrow>
        x - r \<le> px \<and> px < x + r \<and> y - r \<le> py \<and> py < y + r)
     \<and> (x - r \<le> px \<and> px < x + r \<and> y - r \<le> py \<and> py < y + r \<longrightarrow>
        (\<exists>ms'. handle_event c s (MOUSEBUTTONDOWN 1 (px, py)) =
           (Continue (s\<lparr>score := score s + 1, mole_list := ms'\<rparr>), [SplatSound])))
     \<and> (\<not> (x - r \<le> px \<and> px < x + r \<and> y - r \<le> py \<and> py < y + r)
        \<and> (\<forall>j < length (mole_list s). j \<noteq> i \<longrightarrow> \<not> active (mole_list s ! j)) \<longrightarrow>
        handle_event c s (MOUSEBUTTONDOWN 1 (px, py)) =
          (Continue (s\<lparr>lives := lives s - 1\<rparr>), []))
     \<and> (0 < r \<longrightarrow>
        collidepoint (rect (mole_list s ! i)) (x - r, y - r)
        \<and> r * r < (x - r - x) * (x - r - x) + (y - r - y) * (y - r - y))"
proof (intro conjI impI)
  show sq: "collidepoint (rect (mole_list s ! i)) (px, py) \<longleftrightarrow>
        x - r \<le> px \<and> px < x + r \<and> y - r \<le> py \<and> py < y + r"
    using assms(5) by (simp add: collide_square)
  show "\<exists>ms'. handle_event c s (MOUSEBUTTONDOWN 1 (px, py)) =
           (Continue (s\<lparr>score := score s + 1, mole_list := ms'\<rparr>), [SplatSound])"
    if "x - r \<le> px \<and> px < x + r \<and> y - r \<le> py \<and> py < y + r"
    using that sq assms(1-4) by (intro press_some_hit[of s c "(px, py)" i]) auto
  show "handle_event c s (MOUSEBUTTONDOWN 1 (px, py)) = (Continue (s\<lparr>lives := lives s - 1\<rparr>), [])"
    if h: "\<not> (x - r \<le> px \<and> px < x + r \<and> y - r \<le> py \<and> py < y + r)
        \<and> (\<forall>j < length (mole_list s). j \<noteq> i \<longrightarrow> \<not> active (mole_list s ! j))"
  proof -
    from h sq have "\<not> collidepoint (rect (mole_list s ! i)) (px, py)"
      by blast
    with h assms(3)
    have "\<forall>m \<in> set (mole_list s). \<not> (active m \<and> collidepoint (rect m) (px, py))"
      by (intro only_active_miss[of i]) auto
    with assms(1,2) show ?thesis
      by (intro press_miss) auto
  qed
  show "collidepoint (rect (mole_list s ! i)) (x - r, y - r)" if "0 < r"
    using that assms(5) by (simp add: collide_square)
  show "r * r < (x - r - x) * (x - r - x) + (y - r - y) * (y - r - y)" if "0 < r"
  proof -
    have "0 < r * r" using that by simp
    then show ?thesis by simp
  qed
qed

theorem hit_region_half_open_square_witness:
  "\<not> game_over sample_session
   \<and> \<not> collidepoint (exit_rect sample_config) (156, 122)
   \<and> (0::nat) < length (mole_list sample_session)
   \<and> active (mole_list sample_session ! 0)
   \<and> rect (mole_list sample_session ! 0) = get_rect_center (44 * 2, 44 * 2) (200, 166)
   \<and> (200 - 44 \<le> (156::int) \<and> (156::int) < 200 + 44 \<and> 166 - 44 \<le> (122::int) \<and> (122::int) < 166 + 44)
   \<and> (\<exists>ms'. handle_event sample_config sample_session (MOUSEBUTTONDOWN 1 (156, 122)) =
         (Continue (sample_session\<lparr>score := score sample_session + 1, mole_list := ms'\<rparr>),
          [SplatSound]))
   \<and> (44::int) * 44 < (156 - 200) * (156 - 200) + (122 - 166) * (122 - 166)"
proof -
  have g: "\<not> game_over sample_session"
    by (simp add: sample_session_def)
  have e: "\<not> collidepoint (exit_rect sample_config) (156, 122)"
    by (simp add: sample_config_def sample_exit_rect_def collidepoint_def)
  have i: "(0::nat) < length (mole_list sample_session)"
    and a: "active (mole_list sample_session ! 0)"
    and r: "rect (mole_list sample_session ! 0) = get_rect_center (44 * 2, 44 * 2) (200, 166)"
    by (simp_all add: sample_session_def create_holes_value Mole_init_def activate_def)
  have b: "200 - 44 \<le> (156::int) \<and> (156::int) < 200 + 44 \<and> 166 - 44 \<le> (122::int) \<and> (122::int) < 166 + 44"
    by simp
  from hit_region_half_open_square[OF g e i a r] b
  have "\<exists>ms'. handle_event sample_config sample_session (MOUSEBUTTONDOWN 1 (156, 122)) =
         (Continue (sample_session\<lparr>score := score sample_session + 1, mole_list := ms'\<rparr>),
          [SplatSound])"
    by blast
  then show ?thesis
    using g e i a r by simp
qed

text \<open>
  C10 as stated fails on the right edge: in the sample session, with the mole at
  \<open>(200, 166)\<close> of radius 44 up, a press at \<open>(244, 166)\<close> has offsets 44 and 0, both at
  most the radius, and is a miss: the score stays 0 and a life is lost.
\<close>

theorem hit_region_right_edge_counterexample:
  "state_of (run_game ''Easy'' ''Default'' sample_exit_rect 3000
       [\<lparr>now_ms = 3016, events = [], draw = 0\<rparr>]) = Some sample_session
   \<and> active (mole_list sample_session ! 0)
   \<and> rect (mole_list sample_session ! 0) = get_rect_center (44 * 2, 44 * 2) (200, 166)
   \<and> \<bar>244 - 200\<bar> \<le> (44::int) \<and> \<bar>166 - 166\<bar> \<le> (44::int)
   \<and> map_option (\<lambda>s. (score s, lives s))
       (state_of (run_game ''Easy'' ''Default'' sample_exit_rect 3000
          [\<lparr>now_ms = 3016, events = [], draw = 0\<rparr>,
           \<lparr>now_ms = 3033, events = [MOUSEBUTTONDOWN 1 (244, 166)], draw = 0\<rparr>]))
     = Some (0, 2)"
  by (simp add: session_eval)

section \<open>Leaving the session\<close>

lemma handle_events_escape:
  assumes "KEYDOWN K_ESCAPE \<in> set es"
    and "QUIT \<notin> set (takeWhile (\<lambda>e. e \<noteq> KEYDOWN K_ESCAPE) es)"
  shows "fst (handle_events c s es) = ReturnToMenu"
  using assms
proof (induction es arbitrary: s)
  case Nil
  then show ?case by simp
next
  case (Cons e es)
  show ?case
  proof (cases "e = KEYDOWN K_ESCAPE")
    case True
    then show ?thesis by simp
  next
    case False
    with Cons.prems have in_rest: "KEYDOWN K_ESCAPE \<in> set es"
      and no_quit: "QUIT \<notin> set (takeWhile (\<lambda>e. e \<noteq> KEYDOWN K_ESCAPE) es)"
      and nq: "e \<noteq> QUIT"
      by auto
    show ?thesis
    proof (cases "handle_event c s e")
      case (Pair r fx)
      show ?thesis
      proof (cases r)
        case (Continue s')
        with Pair Cons.IH[OF in_rest no_quit, of s'] show ?thesis
          by (simp add: split_beta)
      next
        case ReturnToMenu
        with Pair show ?thesis by simp
      next
        case ProcessExit
        with Pair nq have False
          by (cases e) (auto simp: Let_def split_beta split: if_splits)
        then show ?thesis ..
      qed
    qed
  qed
qed

lemma frame_fst:
  "fst (frame c s inp) =
     (case fst (handle_events c (fst (game_over_check c s (now_ms inp))) (events inp)) of
        Continue s2 \<Rightarrow>
          Continue (moles_update (spawn_step c s2 (now_ms inp) (draw inp)) (now_ms inp))
      | r \<Rightarrow> r)"
  by (simp add: frame_def split_beta split: prod.splits outcome.splits)

text \<open>
  C9.  A press of the escape key makes \<^verbatim>\<open>run_game\<close> return to the menu whatever the
  state is, game over or still running: the event alone does it, and so does any batch
  of events that holds it with no window-close request before it, the frame that
  handles the batch, and the loop.
\<close>

theorem escape_returns_to_menu:
  "handle_event c s (KEYDOWN K_ESCAPE) = (ReturnToMenu, [])
   \<and> (KEYDOWN K_ESCAPE \<in> set (events inp)
      \<and> QUIT \<notin> set (takeWhile (\<lambda>e. e \<noteq> KEYDOWN K_ESCAPE) (events inp)) \<longrightarrow>
        fst (frame c s inp) = ReturnToMenu
        \<and> fst (run_frames c s (inp # fs)) = ReturnToMenu)"
proof (intro conjI impI)
  show "handle_event c s (KEYDOWN K_ESCAPE) = (ReturnToMenu, [])"
    by simp
next
  assume h: "KEYDOWN K_ESCAPE \<in> set (events inp)
      \<and> QUIT \<notin> set (takeWhile (\<lambda>e. e \<noteq> KEYDOWN K_ESCAPE) (events inp))"
  then have "fst (handle_events c (fst (game_over_check c s (now_ms inp))) (events inp))
      = ReturnToMenu"
    by (intro handle_events_escape) auto
  then show f: "fst (frame c s inp) = ReturnToMenu"
    by (simp add: frame_fst)
  then show "fst (run_frames c s (inp # fs)) = ReturnToMenu"
    by (cases "frame c s inp") simp
qed

theorem escape_returns_to_menu_witness:
  "\<not> game_over sample_session
   \<and> \<not> game_over (fst (game_over_check sample_config sample_session 3033))
   \<and> KEYDOWN K_ESCAPE \<in> set [MOUSEBUTTONDOWN 1 (10, 500), KEYDOWN K_ESCAPE, QUIT]
   \<and> QUIT \<notin> set (takeWhile (\<lambda>e. e \<noteq> KEYDOWN K_ESCAPE)
        [MOUSEBUTTONDOWN 1 (10, 500), KEYDOWN K_ESCAPE, QUIT])
   \<and> fst (frame sample_config sample_session
        \<lparr>now_ms = 3033, events = [MOUSEBUTTONDOWN 1 (10, 500), KEYDOWN K_ESCAPE, QUIT],
         draw = 0\<rparr>) = ReturnToMenu"
proof -
  have h: "KEYDOWN K_ESCAPE \<in> set (events
        \<lparr>now_ms = 3033, events = [MOUSEBUTTONDOWN 1 (10, 500), KEYDOWN K_ESCAPE, QUIT],
         draw = 0\<rparr>)
     \<and> QUIT \<notin> set (takeWhile (\<lambda>e. e \<noteq> KEYDOWN K_ESCAPE) (events
        \<lparr>now_ms = 3033, events = [MOUSEBUTTONDOWN 1 (10, 500), KEYDOWN K_ESCAPE, QUIT],
         draw = 0\<rparr>))"
    by simp
  have g: "\<not> game_over sample_session
     \<and> \<not> game_over (fst (game_over_check sample_config sample_session 3033))"
    by (simp add: session_eval)
  from escape_returns_to_menu[of sample_config sample_session
      "\<lparr>now_ms = 3033, events = [MOUSEBUTTONDOWN 1 (10, 500), KEYDOWN K_ESCAPE, QUIT],
         draw = 0\<rparr>"] h
  have "fst (frame sample_config sample_session
        \<lparr>now_ms = 3033, events = [MOUSEBUTTONDOWN 1 (10, 500), KEYDOWN K_ESCAPE, QUIT],
         draw = 0\<rparr>) = ReturnToMenu"
    by blast
  with g show ?thesis
    by simp
qed

section \<open>Starting a session\<close>

lemma setup_unknown_difficulty:
  "DIFFICULTIES d = None \<Longrightarrow> run_game_setup d t R st = Inl (KeyError d)"
  by (simp add: run_game_setup_def subscript_def)

lemma setup_known_difficulty:
  assumes "DIFFICULTIES d = Some (vis, interval, len)"
  shows "\<exists>s. run_game_setup d t R st =
     Inr (\<lparr>mole_visible_ms = vis, spawn_interval_ms = interval, game_length_seconds = len,
           start_time_ms = st, exit_rect = R,
           theme = (case THEMES t of None \<Rightarrow> theme_Default | Some th \<Rightarrow> th)\<rparr>, s)"
  using assms
  by (simp add: run_game_setup_def subscript_def dict_get_def THEMES_def split_beta)

text \<open>
  C3.  A session started with the difficulty name \<open>''Expert''\<close> does not start:
  the subscript \<^verbatim>\<open>DIFFICULTIES[difficulty_name]\<close> raises \<^verbatim>\<open>KeyError\<close> before
  anything else runs.  The theme lookup beside it does fall back: with the theme name
  \<open>''Volcano''\<close> the Easy session starts with the default theme.
\<close>

theorem unknown_difficulty_raises_KeyError:
  "run_game ''Expert'' ''Default'' sample_exit_rect 3000 fs = Inl (KeyError ''Expert'')
   \<and> run_game_setup ''Easy'' ''Volcano'' sample_exit_rect 3000 =
       Inr (sample_config, sample_start)
   \<and> theme sample_config = theme_Default"
  by (simp add: session_eval)

section \<open>The remaining time\<close>

lemma trunc_div_1000:
  "0 \<le> a \<Longrightarrow> trunc_div a 1000 = a div 1000"
  "a < 0 \<Longrightarrow> trunc_div a 1000 \<le> 0"
  by (simp_all add: trunc_div_def)

lemma remaining_s_nonneg:
  "0 \<le> 1000 * game_length_seconds c - (now - start_time_ms c) \<Longrightarrow>
   remaining_s c now = (1000 * game_length_seconds c - (now - start_time_ms c)) div 1000"
  by (simp add: remaining_s_def trunc_div_1000)

lemma remaining_s_neg:
  "1000 * game_length_seconds c - (now - start_time_ms c) < 0 \<Longrightarrow> remaining_s c now = 0"
  using trunc_div_1000(2)[of "1000 * game_length_seconds c - (now - start_time_ms c)"]
  by (simp add: remaining_s_def)

lemma remaining_s_bounds:
  "0 \<le> remaining_s c now
   \<and> 1000 * remaining_s c now \<le> max 0 (1000 * game_length_seconds c - (now - start_time_ms c))
   \<and> max 0 (1000 * game_length_seconds c - (now - start_time_ms c))
       < 1000 * remaining_s c now + 1000"
proof (cases "0 \<le> 1000 * game_length_seconds c - (now - start_time_ms c)")
  case True
  define a where "a = 1000 * game_length_seconds c - (now - start_time_ms c)"
  have r: "remaining_s c now = a div 1000"
    using True by (simp add: remaining_s_nonneg a_def)
  have "0 \<le> a" using True by (simp add: a_def)
  have m: "a = 1000 * (a div 1000) + a mod 1000" "0 \<le> a mod 1000" "a mod 1000 < 1000"
    by simp_all
  have "0 \<le> a div 1000"
    using \<open>0 \<le> a\<close> by (simp add: pos_imp_zdiv_nonneg_iff)
  moreover have "1000 * (a div 1000) \<le> a" "a < 1000 * (a div 1000) + 1000"
    using m by linarith+
  ultimately have "0 \<le> a div 1000" "1000 * (a div 1000) \<le> a"
    "a < 1000 * (a div 1000) + 1000"
    by blast+
  then show ?thesis
    using r \<open>0 \<le> a\<close> by (simp add: a_def)
next
  case False
  then show ?thesis
    by (simp add: remaining_s_neg)
qed

lemma remaining_s_pos_iff:
  "0 < remaining_s c now \<longleftrightarrow> now - start_time_ms c \<le> 1000 * (game_length_seconds c - 1)"
  using remaining_s_bounds[of c now] by (auto simp: max_def split: if_splits)

text \<open>
  C4.  The preset's third number is the total game time, and the claim has the time
  left positive, and no time-based game over, for as long as the elapsed time is
  below it.  The loop does otherwise in the last second.  The sample session lasts
  30 seconds and starts at 3000 ms; at the frame of 32001 ms, 29.001 seconds in, 999
  ms are left, yet \<^verbatim>\<open>remaining_s\<close> is 0 and the session is over with all three lives
  left.
\<close>

theorem remaining_s_zero_before_time_is_up:
  "run_game_setup ''Easy'' ''Default'' sample_exit_rect 3000 = Inr (sample_config, sample_start)
   \<and> 32001 - start_time_ms sample_config < 1000 * game_length_seconds sample_config
   \<and> max 0 (1000 * game_length_seconds sample_config - (32001 - start_time_ms sample_config))
       = 999
   \<and> remaining_s sample_config 32001 = 0
   \<and> map_option (\<lambda>s. (game_over s, lives s))
       (state_of (run_game ''Easy'' ''Default'' sample_exit_rect 3000
          [\<lparr>now_ms = 32001, events = [], draw = 0\<rparr>]))
     = Some (True, 3)"
  by (simp add: session_eval)

section \<open>What a frame can change\<close>

lemma hit_scan_shape:
  assumes "hit_scan p ms = Some ms'"
  shows "length ms' = length ms"
    and "j < length ms \<Longrightarrow> active (ms' ! j) \<Longrightarrow> active (ms ! j)"
proof -
  from hit_scan_Some[OF assms] obtain i where i: "i < length ms"
    "ms' = ms[i := deactivate (ms ! i)]"
    by blast
  show "length ms' = length ms"
    using i by simp
  show "active (ms ! j)" if "j < length ms" "active (ms' ! j)"
    using that i by (cases "j = i") (simp_all add: deactivate_def)
qed

lemma click_moles_facts:
  assumes "click_moles s p = (s', fx)"
  shows "game_over s' = game_over s" and "last_spawn_time s' = last_spawn_time s"
    and "active_mole s' = active_mole s"
    and "length (mole_list s') = length (mole_list s)"
    and "lives s - 1 \<le> lives s'" and "lives s' \<le> lives s" and "score s \<le> score s'"
    and "set fx \<subseteq> {SplatSound}"
    and "\<And>j. j < length (mole_list s) \<Longrightarrow> active (mole_list s' ! j) \<Longrightarrow> active (mole_list s ! j)"
  using assms
  by (auto simp: click_moles_def split: option.splits dest: hit_scan_shape)

lemma handle_event_facts:
  assumes "handle_event c s e = (Continue s', fx)"
  shows "game_over s' = game_over s" and "last_spawn_time s' = last_spawn_time s"
    and "active_mole s' = active_mole s"
    and "length (mole_list s') = length (mole_list s)"
    and "lives s - (if is_primary_press e then 1 else 0) \<le> lives s'"
    and "lives s' \<le> lives s" and "score s \<le> score s'"
    and "game_over s \<Longrightarrow> s' = s"
    and "\<And>j. j < length (mole_list s) \<Longrightarrow> active (mole_list s' ! j) \<Longrightarrow> active (mole_list s ! j)"
proof -
  consider (quit) "e = QUIT" | (other) "e = OTHER" | (key) k where "e = KEYDOWN k"
    | (secondary) b p where "e = MOUSEBUTTONDOWN b p" "b \<noteq> 1"
    | (primary) p where "e = MOUSEBUTTONDOWN 1 p"
    by (cases e) auto
  then have "(s' = s \<or> (\<exists>p. e = MOUSEBUTTONDOWN 1 p \<and> \<not> game_over s \<and> click_moles s p = (s', fx)))"
  proof cases
    case quit
    with assms show ?thesis by simp
  next
    case other
    with assms show ?thesis by simp
  next
    case key
    with assms show ?thesis by (simp split: if_splits)
  next
    case secondary
    with assms show ?thesis by simp
  next
    case primary
    with assms show ?thesis
      by (cases "click_moles s p") (auto split: if_splits)
  qed
  then consider "s' = s" | p where "e = MOUSEBUTTONDOWN 1 p" "\<not> game_over s" "click_moles s p = (s', fx)"
    by blast
  note cs = this
  show "game_over s' = game_over s"
    using cs click_moles_facts(1) by cases auto
  show "last_spawn_time s' = last_spawn_time s"
    using cs click_moles_facts(2) by cases auto
  show "active_mole s' = active_mole s"
    using cs click_moles_facts(3) by cases auto
  show "length (mole_list s') = length (mole_list s)"
    using cs click_moles_facts(4) by cases auto
  show "lives s - (if is_primary_press e then 1 else 0) \<le> lives s'"
    using cs click_moles_facts(5) by cases auto
  show "lives s' \<le> lives s"
    using cs click_moles_facts(6) by cases auto
  show "score s \<le> score s'"
    using cs click_moles_facts(7) by cases auto
  show "s' = s" if "game_over s"
    using cs that by cases auto
  show "active (mole_list s ! j)" if "j < length (mole_list s)" "active (mole_list s' ! j)" for j
    using cs that click_moles_facts(9) by cases auto
qed

lemma handle_events_step:
  assumes "handle_events c s (e # es) = (Continue s', fx)"
  obtains s1 fx1 fx2 where "handle_event c s e = (Continue s1, fx1)"
    and "handle_events c s1 es = (Continue s', fx2)" and "fx = fx1 @ fx2"
  using assms
  by (auto split: prod.splits outcome.splits)

lemma handle_events_facts:
  assumes "handle_events c s es = (Continue s', fx)"
  shows "game_over s' = game_over s \<and> last_spawn_time s' = last_spawn_time s
    \<and> active_mole s' = active_mole s
    \<and> length (mole_list s') = length (mole_list s)
    \<and> lives s - int (presses es) \<le> lives s'
    \<and> lives s' \<le> lives s \<and> score s \<le> score s'
    \<and> (game_over s \<longrightarrow> s' = s)
    \<and> (\<forall>j < length (mole_list s). active (mole_list s' ! j) \<longrightarrow> active (mole_list s ! j))"
  using assms
proof (induction es arbitrary: s fx)
  case Nil
  then show ?case by (simp add: presses_def)
next
  case (Cons e es)
  from Cons.prems obtain s1 fx1 fx2 where e: "handle_event c s e = (Continue s1, fx1)"
    and r: "handle_events c s1 es = (Continue s', fx2)"
    by (rule handle_events_step)
  note f = handle_event_facts[OF e]
  note ih = Cons.IH[OF r]
  have p: "int (presses (e # es)) = (if is_primary_press e then 1 else 0) + int (presses es)"
    by (simp add: presses_def)
  have "lives s - int (presses (e # es)) \<le> lives s'"
    using f(5) ih p by linarith
  moreover have "\<forall>j < length (mole_list s). active (mole_list s' ! j) \<longrightarrow> active (mole_list s ! j)"
    using f(4) f(9) ih by auto
  moreover have "game_over s \<longrightarrow> s' = s"
    using f(8) ih by auto
  ultimately show ?case
    using f(1-4) f(6,7) ih by auto
qed

lemma frame_Continue:
  assumes "frame c s inp = (Continue s', fx)"
  obtains s2 fx2 where
    "handle_events c (fst (game_over_check c s (now_ms inp))) (events inp) = (Continue s2, fx2)"
    and "s' = moles_update (spawn_step c s2 (now_ms inp) (draw inp)) (now_ms inp)"
    and "fx = snd (game_over_check c s (now_ms inp)) @ fx2"
proof (cases "handle_events c (fst (game_over_check c s (now_ms inp))) (events inp)")
  case (Pair r fx2)
  with assms have "r = Continue (case r of Continue s2 \<Rightarrow> s2 | _ \<Rightarrow> s)"
    by (cases r) (simp_all add: frame_def split_beta)
  then obtain s2 where r: "r = Continue s2"
    by blast
  with Pair assms that show ?thesis
    by (simp add: frame_def split_beta)
qed

lemma run_frames_step:
  assumes "run_frames c s (f # fs) = (Continue s', fx)"
  obtains s1 fx1 fx2 where "frame c s f = (Continue s1, fx1)"
    and "run_frames c s1 fs = (Continue s', fx2)" and "fx = fx1 @ fx2"
  using assms
  by (auto split: prod.splits outcome.splits)

lemma game_over_check_facts:
  "game_over (fst (game_over_check c s now)) \<longleftrightarrow>
     game_over s \<or> remaining_s c now \<le> 0 \<or> lives s \<le> 0"
  "fst (game_over_check c s now) = s\<lparr>game_over := game_over (fst (game_over_check c s now))\<rparr>"
  "snd (game_over_check c s now) =
     (if \<not> game_over s \<and> (remaining_s c now \<le> 0 \<or> lives s \<le> 0)
      then [MusicStop, GameOverSound] else [])"
  by (auto simp: game_over_check_def)

lemma game_logic_fields:
  "lives (moles_update (spawn_step c s now d) now) = lives s"
  "score (moles_update (spawn_step c s now d) now) = score s"
  "game_over (moles_update (spawn_step c s now d) now) = game_over s"
  "length (mole_list (moles_update (spawn_step c s now d) now)) = length (mole_list s)"
  by (auto simp: moles_update_def spawn_step_def spawn_new_mole_def Let_def split: option.splits)

section \<open>Lives\<close>

lemma frame_lives:
  assumes "frame c s inp = (Continue s', fx)"
    and "presses (events inp) \<le> k" and "1 \<le> k" and "1 - int k \<le> lives s"
  shows "1 - int k \<le> lives s'"
proof -
  from assms(1) obtain s2 fx2 where
    ev: "handle_events c (fst (game_over_check c s (now_ms inp))) (events inp) = (Continue s2, fx2)"
    and s': "s' = moles_update (spawn_step c s2 (now_ms inp) (draw inp)) (now_ms inp)"
    by (rule frame_Continue)
  let ?s1 = "fst (game_over_check c s (now_ms inp))"
  have l1: "lives ?s1 = lives s"
    by (simp add: game_over_check_def)
  note f = handle_events_facts[OF ev]
  have "1 - int k \<le> lives s2"
  proof (cases "game_over ?s1")
    case True
    with f have "s2 = ?s1" by blast
    with l1 assms(4) show ?thesis by simp
  next
    case False
    then have "1 \<le> lives s"
      by (simp add: game_over_check_facts(1))
    moreover have "lives ?s1 - int (presses (events inp)) \<le> lives s2"
      using f by blast
    ultimately show ?thesis
      using l1 assms(2) by linarith
  qed
  then show ?thesis
    by (simp add: s' game_logic_fields)
qed

lemma run_frames_lives:
  assumes "run_frames c s fs = (Continue s', fx)"
    and "\<forall>f \<in> set fs. presses (events f) \<le> k" and "1 \<le> k" and "1 - int k \<le> lives s"
  shows "1 - int k \<le> lives s'"
  using assms
proof (induction fs arbitrary: s fx)
  case Nil
  then show ?case by simp
next
  case (Cons f fs)
  from Cons.prems(1) obtain s1 fx1 fx2 where f: "frame c s f = (Continue s1, fx1)"
    and r: "run_frames c s1 fs = (Continue s', fx2)"
    by (rule run_frames_step)
  have "1 - int k \<le> lives s1"
    using f Cons.prems(2-4) by (intro frame_lives[of c s f s1 fx1 k]) auto
  with Cons.IH[OF r] Cons.prems(2,3) show ?case
    by simp
qed

lemma state_of_run_game:
  assumes "state_of (run_game d t R st fs) = Some s'"
  obtains c s fx where "run_game_setup d t R st = Inr (c, s)"
    and "run_frames c s fs = (Continue s', fx)"
  using assms
  by (auto simp: state_of_def run_game_def split: sum.splits prod.splits outcome.splits)

lemma setup_initial:
  assumes "run_game_setup d t R st = Inr (c, s)"
  shows "lives s = 3" and "score s = 0" and "\<not> game_over s" and "active_mole s = None"
    and "last_spawn_time s = 0" and "length (mole_list s) = 9"
    and "\<forall>m \<in> set (mole_list s). \<not> active m"
  using assms
  by (auto simp: run_game_setup_def subscript_def create_holes_value Mole_init_def
      split: sum.splits option.splits prod.splits)

text \<open>
  C1 (as amended).  A miss click takes exactly one life and nothing stops the counter
  at 0.  In a session where no frame's batch of events holds more than \<open>k \<ge> 1\<close>
  primary presses the lives never go below \<open>1 - k\<close>; in particular they never go
  below 0 when every batch holds at most one primary press.
\<close>

theorem lives_lower_bound:
  "(state_of (run_game d t R st fs) = Some s'
      \<and> (\<forall>f \<in> set fs. presses (events f) \<le> k) \<and> 1 \<le> k \<longrightarrow> 1 - int k \<le> lives s')
   \<and> (state_of (run_game d t R st fs) = Some s'
      \<and> (\<forall>f \<in> set fs. presses (events f) \<le> 1) \<longrightarrow> 0 \<le> lives s')
   \<and> (\<not> game_over s \<and> \<not> collidepoint (exit_rect c) p
      \<and> (\<forall>m \<in> set (mole_list s). \<not> (active m \<and> collidepoint (rect m) p)) \<longrightarrow>
        handle_event c s (MOUSEBUTTONDOWN 1 p) = (Continue (s\<lparr>lives := lives s - 1\<rparr>), []))"
proof -
  have bound: "1 - int k \<le> lives s'"
    if "state_of (run_game d t R st fs) = Some s'"
      and "\<forall>f \<in> set fs. presses (events f) \<le> k" and "1 \<le> k" for k
  proof -
    from that(1) obtain c0 s0 fx where su: "run_game_setup d t R st = Inr (c0, s0)"
      and ru: "run_frames c0 s0 fs = (Continue s', fx)"
      by (rule state_of_run_game)
    have "1 - int k \<le> lives s0"
      using setup_initial(1)[OF su] by simp
    with ru that(2,3) show ?thesis
      by (rule run_frames_lives)
  qed
  have "0 \<le> lives s'"
    if "state_of (run_game d t R st fs) = Some s'"
      and "\<forall>f \<in> set fs. presses (events f) \<le> 1"
    using bound[of 1] that by simp
  moreover have "handle_event c s (MOUSEBUTTONDOWN 1 p) = (Continue (s\<lparr>lives := lives s - 1\<rparr>), [])"
    if "\<not> game_over s \<and> \<not> collidepoint (exit_rect c) p
      \<and> (\<forall>m \<in> set (mole_list s). \<not> (active m \<and> collidepoint (rect m) p))"
    using that by (intro press_miss) auto
  ultimately show ?thesis
    using bound by blast
qed

theorem lives_lower_bound_witness:
  "state_of (run_game ''Easy'' ''Default'' sample_exit_rect 3000
       [\<lparr>now_ms = 3016, events = [MOUSEBUTTONDOWN 1 (10, 500)], draw = 0\<rparr>,
        \<lparr>now_ms = 3033, events = [MOUSEBUTTONDOWN 1 (10, 500)], draw = 0\<rparr>,
        \<lparr>now_ms = 3050, events = [MOUSEBUTTONDOWN 1 (10, 500)], draw = 0\<rparr>])
     = Some (sample_session\<lparr>lives := 0\<rparr>)
   \<and> list_all (\<lambda>f. presses (events f) \<le> 1)
       [\<lparr>now_ms = 3016, events = [MOUSEBUTTONDOWN 1 (10, 500)], draw = 0\<rparr>,
        \<lparr>now_ms = 3033, events = [MOUSEBUTTONDOWN 1 (10, 500)], draw = 0\<rparr>,
        \<lparr>now_ms = 3050, events = [MOUSEBUTTONDOWN 1 (10, 500)], draw = 0\<rparr>]
   \<and> 0 \<le> lives (sample_session\<lparr>lives := 0\<rparr>)"
proof -
  let ?fs = "[\<lparr>now_ms = 3016, events = [MOUSEBUTTONDOWN 1 (10, 500)], draw = 0\<rparr>,
        \<lparr>now_ms = 3033, events = [MOUSEBUTTONDOWN 1 (10, 500)], draw = 0\<rparr>,
        \<lparr>now_ms = 3050, events = [MOUSEBUTTONDOWN 1 (10, 500)], draw = 0\<rparr>]"
  have r: "state_of (run_game ''Easy'' ''Default'' sample_exit_rect 3000 ?fs)
     = Some (sample_session\<lparr>lives := 0\<rparr>)"
    by (simp add: session_eval)
  have p: "\<forall>f \<in> set ?fs. presses (events f) \<le> 1"
    by (simp add: presses_def)
  from lives_lower_bound[of "''Easy''" "''Default''" sample_exit_rect 3000 ?fs
      "sample_session\<lparr>lives := 0\<rparr>"] r p
  have "0 \<le> lives (sample_session\<lparr>lives := 0\<rparr>)"
    by blast
  with r p show ?thesis
    by (simp add: list_all_iff)
qed

text \<open>
  C1 as stated fails when one batch holds several misses: four primary presses on
  empty ground in the first frame of the sample session leave \<open>lives = - 1\<close>, with the
  session still running.
\<close>

theorem lives_below_zero_counterexample:
  "map_option (\<lambda>s. (lives s, game_over s))
     (state_of (run_game ''Easy'' ''Default'' sample_exit_rect 3000
        [\<lparr>now_ms = 3016,
          events = [MOUSEBUTTONDOWN 1 (10, 500), MOUSEBUTTONDOWN 1 (10, 500),
                    MOUSEBUTTONDOWN 1 (10, 500), MOUSEBUTTONDOWN 1 (10, 500)],
          draw = 0\<rparr>]))
   = Some (- 1, False)"
  by (simp add: session_eval)

section \<open>The active mole\<close>

lemma filter_at_most_one:
  assumes "\<forall>i j. i < length xs \<and> j < length xs \<and> P (xs ! i) \<and> P (xs ! j) \<longrightarrow> i = j"
  shows "length (filter P xs) \<le> 1"
  using assms
proof (induction xs)
  case Nil
  then show ?case by simp
next
  case (Cons x xs)
  have rest: "\<forall>i j. i < length xs \<and> j < length xs \<and> P (xs ! i) \<and> P (xs ! j) \<longrightarrow> i = j"
  proof (intro allI impI)
    fix i j assume "i < length xs \<and> j < length xs \<and> P (xs ! i) \<and> P (xs ! j)"
    then have "Suc i = Suc j"
      using Cons.prems[rule_format, of "Suc i" "Suc j"] by simp
    then show "i = j" by simp
  qed
  show ?case
  proof (cases "P x")
    case True
    have "filter P xs = []"
    proof (rule ccontr)
      assume "filter P xs \<noteq> []"
      then obtain y where "y \<in> set xs" "P y"
        by (auto simp: filter_empty_conv)
      then obtain j where "j < length xs" "P (xs ! j)"
        by (auto simp: in_set_conv_nth)
      with True have "0 = Suc j"
        using Cons.prems[rule_format, of 0 "Suc j"] by simp
      then show False by simp
    qed
    with True show ?thesis by simp
  next
    case False
    with Cons.IH[OF rest] show ?thesis by simp
  qed
qed

lemma spawn_new_mole_only_ref:
  assumes "mole_list s \<noteq> []"
    and "\<forall>j < length (mole_list s). active (mole_list s ! j) \<longrightarrow> active_mole s = Some j"
  shows "\<forall>j < length (mole_list (spawn_new_mole c s now d)).
           active (mole_list (spawn_new_mole c s now d) ! j) \<longrightarrow>
           active_mole (spawn_new_mole c s now d) = Some j"
proof -
  define ms where "ms = (case active_mole s of
                  None \<Rightarrow> mole_list s
                | Some i \<Rightarrow> (mole_list s)[i := deactivate (mole_list s ! i)])"
  have len: "length ms = length (mole_list s)"
    by (simp add: ms_def split: option.splits)
  have none: "\<not> active (ms ! j)" if "j < length ms" for j
  proof (cases "active_mole s")
    case None
    with assms(2) that len show ?thesis
      by (auto simp: ms_def)
  next
    case (Some i)
    show ?thesis
    proof (cases "j = i")
      case True
      with Some that len show ?thesis
        by (simp add: ms_def deactivate_def)
    next
      case False
      with Some assms(2) that len show ?thesis
        by (auto simp: ms_def)
    qed
  qed
  have s': "spawn_new_mole c s now d =
      s\<lparr>mole_list := ms[d mod length ms := activate ((ms ! (d mod length ms))\<lparr>visible_ms := mole_visible_ms c\<rparr>) now],
        active_mole := Some (d mod length ms)\<rparr>"
    by (simp add: spawn_new_mole_def ms_def Let_def)
  show ?thesis
  proof (intro allI impI)
    fix j
    assume j: "j < length (mole_list (spawn_new_mole c s now d))"
      and a: "active (mole_list (spawn_new_mole c s now d) ! j)"
    have "j = d mod length ms"
    proof (rule ccontr)
      assume "j \<noteq> d mod length ms"
      with j a have "j < length ms" "active (ms ! j)"
        by (simp_all add: s')
      with none show False by blast
    qed
    then show "active_mole (spawn_new_mole c s now d) = Some j"
      by (simp add: s')
  qed
qed

lemma moles_update_only_ref:
  assumes "\<forall>j < length (mole_list s). active (mole_list s ! j) \<longrightarrow> active_mole s = Some j"
  shows "\<forall>j < length (mole_list (moles_update s now)).
           active (mole_list (moles_update s now) ! j) \<longrightarrow> active_mole (moles_update s now) = Some j"
  using assms
  by (auto simp: moles_update_def update_def deactivate_def split: if_splits)

lemma frame_only_ref:
  assumes "frame c s inp = (Continue s', fx)"
    and "mole_list s \<noteq> []"
    and "\<forall>j < length (mole_list s). active (mole_list s ! j) \<longrightarrow> active_mole s = Some j"
  shows "mole_list s' \<noteq> []
    \<and> (\<forall>j < length (mole_list s'). active (mole_list s' ! j) \<longrightarrow> active_mole s' = Some j)"
proof -
  from assms(1) obtain s2 fx2 where
    ev: "handle_events c (fst (game_over_check c s (now_ms inp))) (events inp) = (Continue s2, fx2)"
    and s': "s' = moles_update (spawn_step c s2 (now_ms inp) (draw inp)) (now_ms inp)"
    by (rule frame_Continue)
  let ?s1 = "fst (game_over_check c s (now_ms inp))"
  have s1: "mole_list ?s1 = mole_list s" "active_mole ?s1 = active_mole s"
    by (simp_all add: game_over_check_def)
  note f = handle_events_facts[OF ev]
  have len2: "length (mole_list s2) = length (mole_list s)"
    using f s1 by simp
  then have ne2: "mole_list s2 \<noteq> []"
    using assms(2) by auto
  have inv2: "\<forall>j < length (mole_list s2). active (mole_list s2 ! j) \<longrightarrow> active_mole s2 = Some j"
    using f s1 assms(3) len2 by auto
  have inv3: "\<forall>j < length (mole_list (spawn_step c s2 (now_ms inp) (draw inp))).
      active (mole_list (spawn_step c s2 (now_ms inp) (draw inp)) ! j) \<longrightarrow>
      active_mole (spawn_step c s2 (now_ms inp) (draw inp)) = Some j"
    using spawn_new_mole_only_ref[OF ne2 inv2, of c "now_ms inp" "draw inp"] inv2
    by (simp add: spawn_step_def)
  have "length (mole_list s') = length (mole_list s)"
    using len2 by (simp add: s' game_logic_fields)
  then have "mole_list s' \<noteq> []"
    using assms(2) by auto
  with moles_update_only_ref[OF inv3, of "now_ms inp"] show ?thesis
    by (simp add: s')
qed

lemma run_frames_only_ref:
  assumes "run_frames c s fs = (Continue s', fx)"
    and "mole_list s \<noteq> []"
    and "\<forall>j < length (mole_list s). active (mole_list s ! j) \<longrightarrow> active_mole s = Some j"
  shows "\<forall>j < length (mole_list s'). active (mole_list s' ! j) \<longrightarrow> active_mole s' = Some j"
  using assms
proof (induction fs arbitrary: s fx)
  case Nil
  then show ?case by simp
next
  case (Cons f fs)
  from Cons.prems(1) obtain s1 fx1 fx2 where f: "frame c s f = (Continue s1, fx1)"
    and r: "run_frames c s1 fs = (Continue s', fx2)"
    by (rule run_frames_step)
  from frame_only_ref[OF f Cons.prems(2,3)] Cons.IH[OF r] show ?case
    by blast
qed

text \<open>
  C2 (as amended).  At every frame of a session at most one mole is active, and an
  active mole is the one \<^verbatim>\<open>active_mole\<close> refers to.  (The reference itself is only
  ever set by a spawn: after a hit or an expiry it still names the mole that went
  down.)
\<close>

theorem at_most_one_active:
  "state_of (run_game d t R st fs) = Some s \<longrightarrow>
     (\<forall>j < length (mole_list s). active (mole_list s ! j) \<longrightarrow> active_mole s = Some j)
     \<and> length (filter active (mole_list s)) \<le> 1"
proof
  assume "state_of (run_game d t R st fs) = Some s"
  then obtain c0 s0 fx where su: "run_game_setup d t R st = Inr (c0, s0)"
    and ru: "run_frames c0 s0 fs = (Continue s, fx)"
    by (rule state_of_run_game)
  note i = setup_initial[OF su]
  have ne: "mole_list s0 \<noteq> []"
    using i(6) by auto
  have "\<forall>j < length (mole_list s0). active (mole_list s0 ! j) \<longrightarrow> active_mole s0 = Some j"
    using i(7) by auto
  with ru ne
  have inv: "\<forall>j < length (mole_list s). active (mole_list s ! j) \<longrightarrow> active_mole s = Some j"
    by (rule run_frames_only_ref)
  then have "\<forall>i j. i < length (mole_list s) \<and> j < length (mole_list s)
      \<and> active (mole_list s ! i) \<and> active (mole_list s ! j) \<longrightarrow> i = j"
    by (metis option.inject)
  then have "length (filter active (mole_list s)) \<le> 1"
    by (rule filter_at_most_one)
  with inv show "(\<forall>j < length (mole_list s). active (mole_list s ! j) \<longrightarrow> active_mole s = Some j)
     \<and> length (filter active (mole_list s)) \<le> 1"
    by blast
qed

theorem at_most_one_active_witness:
  "state_of (run_game ''Easy'' ''Default'' sample_exit_rect 3000
       [\<lparr>now_ms = 3016, events = [], draw = 0\<rparr>]) = Some sample_session
   \<and> (0::nat) < length (mole_list sample_session)
   \<and> active (mole_list sample_session ! 0)
   \<and> active_mole sample_session = Some 0
   \<and> length (filter active (mole_list sample_session)) \<le> 1"
proof -
  have r: "state_of (run_game ''Easy'' ''Default'' sample_exit_rect 3000
       [\<lparr>now_ms = 3016, events = [], draw = 0\<rparr>]) = Some sample_session"
    by (simp add: session_eval)
  have a: "(0::nat) < length (mole_list sample_session)" "active (mole_list sample_session ! 0)"
    by (simp_all add: sample_session_def create_holes_value activate_def)
  from at_most_one_active[of "''Easy''" "''Default''" sample_exit_rect 3000
      "[\<lparr>now_ms = 3016, events = [], draw = 0\<rparr>]" sample_session] r
  have "(\<forall>j < length (mole_list sample_session).
           active (mole_list sample_session ! j) \<longrightarrow> active_mole sample_session = Some j)
     \<and> length (filter active (mole_list sample_session)) \<le> 1"
    by blast
  with a r show ?thesis
    by blast
qed

text \<open>
  C2 as stated fails after a hit: in the sample session the first frame brings mole 0
  up and the second frame's press at \<open>(200, 166)\<close> hits it; afterwards
  \<^verbatim>\<open>active_mole\<close> still refers to mole 0, whose \<^verbatim>\<open>active\<close> flag is false.
\<close>

theorem active_mole_stale_counterexample:
  "map_option (\<lambda>s. (active_mole s, active (mole_list s ! 0), score s))
     (state_of (run_game ''Easy'' ''Default'' sample_exit_rect 3000
        [\<lparr>now_ms = 3016, events = [], draw = 0\<rparr>,
         \<lparr>now_ms = 3033, events = [MOUSEBUTTONDOWN 1 (200, 166)], draw = 0\<rparr>]))
   = Some (Some 0, False, 1)"
  by (simp add: session_eval)

section \<open>Game over\<close>

lemma handle_event_cues:
  "set (snd (handle_event c s e)) \<subseteq> {ClickSound, SplatSound}"
  by (cases e) (auto simp: click_moles_def split_beta split: option.splits)

lemma handle_events_cues:
  "set (snd (handle_events c s es)) \<subseteq> {ClickSound, SplatSound}"
proof (induction es arbitrary: s)
  case Nil
  then show ?case by simp
next
  case (Cons e es)
  obtain r fx where e: "handle_event c s e = (r, fx)"
    by (cases "handle_event c s e")
  have fx: "set fx \<subseteq> {ClickSound, SplatSound}"
    using handle_event_cues[of c s e] e by simp
  show ?case
  proof (cases r)
    case (Continue s1)
    with e fx Cons.IH[of s1] show ?thesis
      by (auto simp: split_beta)
  next
    case ReturnToMenu
    with e fx show ?thesis by simp
  next
    case ProcessExit
    with e fx show ?thesis by simp
  qed
qed

lemma frame_cues:
  "\<exists>fx2. snd (frame c s inp) = snd (game_over_check c s (now_ms inp)) @ fx2
     \<and> set fx2 \<subseteq> {ClickSound, SplatSound}"
proof -
  let ?h = "handle_events c (fst (game_over_check c s (now_ms inp))) (events inp)"
  have "snd (frame c s inp) = snd (game_over_check c s (now_ms inp)) @ snd ?h"
    by (cases ?h) (auto simp: frame_def split_beta split: outcome.splits)
  with handle_events_cues[of c "fst (game_over_check c s (now_ms inp))" "events inp"]
  show ?thesis by blast
qed

lemma frame_game_over:
  assumes "fst (frame c s inp) = Continue s'"
  shows "game_over s' \<longleftrightarrow> game_over s \<or> remaining_s c (now_ms inp) \<le> 0 \<or> lives s \<le> 0"
proof -
  obtain fx where "frame c s inp = (Continue s', fx)"
    using assms by (cases "frame c s inp") simp
  then obtain s2 fx2 where
    ev: "handle_events c (fst (game_over_check c s (now_ms inp))) (events inp) = (Continue s2, fx2)"
    and s': "s' = moles_update (spawn_step c s2 (now_ms inp) (draw inp)) (now_ms inp)"
    by (rule frame_Continue)
  have "game_over s' = game_over s2"
    by (simp add: s' game_logic_fields)
  also have "\<dots> = game_over (fst (game_over_check c s (now_ms inp)))"
    using handle_events_facts[OF ev] by simp
  finally show ?thesis
    by (simp add: game_over_check_facts(1))
qed

lemma frame_after_game_over:
  assumes "frame c s inp = (r, fx)" and "game_over s"
  shows "GameOverSound \<notin> set fx \<and> MusicStop \<notin> set fx
    \<and> (\<forall>s'. r = Continue s' \<longrightarrow> game_over s' \<and> score s' = score s \<and> lives s' = lives s)"
proof -
  have g: "game_over_check c s (now_ms inp) = (s, [])"
    using assms(2) by (simp add: game_over_check_def)
  from frame_cues[of c s inp] assms(1) g
  have cues: "GameOverSound \<notin> set fx \<and> MusicStop \<notin> set fx"
    by auto
  have "game_over s' \<and> score s' = score s \<and> lives s' = lives s" if "r = Continue s'" for s'
  proof -
    from assms(1) that obtain s2 fx2 where
      ev: "handle_events c (fst (game_over_check c s (now_ms inp))) (events inp) = (Continue s2, fx2)"
      and s': "s' = moles_update (spawn_step c s2 (now_ms inp) (draw inp)) (now_ms inp)"
      by (auto elim: frame_Continue)
    from handle_events_facts[OF ev] g assms(2) have "s2 = s"
      by simp
    with assms(2) show ?thesis
      by (simp add: s' game_logic_fields)
  qed
  with cues show ?thesis by blast
qed

lemma run_frames_after_game_over:
  assumes "run_frames c s fs = (r, fx)" and "game_over s"
  shows "GameOverSound \<notin> set fx \<and> MusicStop \<notin> set fx
    \<and> (\<forall>s'. r = Continue s' \<longrightarrow> game_over s' \<and> score s' = score s \<and> lives s' = lives s)"
  using assms
proof (induction fs arbitrary: s r fx)
  case Nil
  then show ?case by auto
next
  case (Cons f fs)
  obtain r1 fx1 where f: "frame c s f = (r1, fx1)"
    by (cases "frame c s f")
  note a = frame_after_game_over[OF f Cons.prems(2)]
  show ?case
  proof (cases r1)
    case (Continue s1)
    obtain r2 fx2 where r2: "run_frames c s1 fs = (r2, fx2)"
      by (cases "run_frames c s1 fs")
    from a Continue have g1: "game_over s1" "score s1 = score s" "lives s1 = lives s"
      by auto
    from Cons.prems(1) f Continue r2 have e: "r = r2" "fx = fx1 @ fx2"
      by auto
    from Cons.IH[OF r2 g1(1)] a g1 e show ?thesis
      by auto
  next
    case ReturnToMenu
    with Cons.prems(1) f a show ?thesis by auto
  next
    case ProcessExit
    with Cons.prems(1) f a show ?thesis by auto
  qed
qed

lemma frame_enter_count:
  assumes "frame c s f = (r, fx)" and "\<not> game_over s"
  shows "count_list fx GameOverSound = (if remaining_s c (now_ms f) \<le> 0 \<or> lives s \<le> 0 then 1 else 0)"
    and "count_list fx MusicStop = (if remaining_s c (now_ms f) \<le> 0 \<or> lives s \<le> 0 then 1 else 0)"
proof -
  from frame_cues[of c s f] assms(1) obtain fx2 where
    fx: "fx = snd (game_over_check c s (now_ms f)) @ fx2" and c: "set fx2 \<subseteq> {ClickSound, SplatSound}"
    by auto
  have z: "count_list fx2 GameOverSound = 0" "count_list fx2 MusicStop = 0"
    using c by (auto simp: count_list_0_iff)
  show "count_list fx GameOverSound = (if remaining_s c (now_ms f) \<le> 0 \<or> lives s \<le> 0 then 1 else 0)"
    using assms(2) z by (simp add: fx game_over_check_facts(3))
  show "count_list fx MusicStop = (if remaining_s c (now_ms f) \<le> 0 \<or> lives s \<le> 0 then 1 else 0)"
    using assms(2) z by (simp add: fx game_over_check_facts(3))
qed

lemma run_frames_enter_count:
  assumes "run_frames c s fs = (r, fx)" and "\<not> game_over s"
  shows "count_list fx GameOverSound \<le> 1 \<and> count_list fx MusicStop \<le> 1
    \<and> (\<forall>s'. r = Continue s' \<longrightarrow>
          count_list fx GameOverSound = (if game_over s' then 1 else 0)
          \<and> count_list fx MusicStop = (if game_over s' then 1 else 0))"
  using assms
proof (induction fs arbitrary: s r fx)
  case Nil
  then show ?case by auto
next
  case (Cons f fs)
  obtain r1 fx1 where f: "frame c s f = (r1, fx1)"
    by (cases "frame c s f")
  note n = frame_enter_count[OF f Cons.prems(2)]
  show ?case
  proof (cases r1)
    case (Continue s1)
    obtain r2 fx2 where r2: "run_frames c s1 fs = (r2, fx2)"
      by (cases "run_frames c s1 fs")
    from Cons.prems(1) f Continue r2 have e: "r = r2" "fx = fx1 @ fx2"
      by auto
    have g1: "game_over s1 \<longleftrightarrow> remaining_s c (now_ms f) \<le> 0 \<or> lives s \<le> 0"
      using frame_game_over[of c s f s1] f Continue Cons.prems(2) by simp
    show ?thesis
    proof (cases "game_over s1")
      case True
      from run_frames_after_game_over[OF r2 True]
      have z: "count_list fx2 GameOverSound = 0" "count_list fx2 MusicStop = 0"
        and k: "\<forall>s'. r2 = Continue s' \<longrightarrow> game_over s'"
        by (auto simp: count_list_0_iff)
      from True g1 n have "count_list fx1 GameOverSound = 1" "count_list fx1 MusicStop = 1"
        by auto
      with z k e show ?thesis by auto
    next
      case False
      from False g1 n have "count_list fx1 GameOverSound = 0" "count_list fx1 MusicStop = 0"
        by auto
      with Cons.IH[OF r2 False] e show ?thesis by auto
    qed
  next
    case ReturnToMenu
    with Cons.prems(1) f n show ?thesis by auto
  next
    case ProcessExit
    with Cons.prems(1) f n show ?thesis by auto
  qed
qed

text \<open>
  What the loop does with the flag and the two cues, with the remaining time as the
  loop computes it: the cues come at most once, at the top of a frame and ahead of
  anything the frame's events play; once the flag is set every frame leaves it set,
  plays neither cue again and leaves score and lives alone, whatever the events are.
\<close>

lemma game_over_latches:
  "(\<not> game_over s \<longrightarrow>
      count_list (snd (run_frames c s fs)) GameOverSound \<le> 1
      \<and> count_list (snd (run_frames c s fs)) MusicStop \<le> 1
      \<and> (\<forall>s'. fst (run_frames c s fs) = Continue s' \<longrightarrow>
            count_list (snd (run_frames c s fs)) GameOverSound = (if game_over s' then 1 else 0)
            \<and> count_list (snd (run_frames c s fs)) MusicStop = (if game_over s' then 1 else 0)))
   \<and> (\<exists>fx2. snd (frame c s inp) =
          (if \<not> game_over s \<and> (remaining_s c (now_ms inp) \<le> 0 \<or> lives s \<le> 0)
           then [MusicStop, GameOverSound] else []) @ fx2
        \<and> set fx2 \<subseteq> {ClickSound, SplatSound})
   \<and> (\<forall>s'. fst (frame c s inp) = Continue s' \<longrightarrow>
         (game_over s' \<longleftrightarrow> game_over s \<or> remaining_s c (now_ms inp) \<le> 0 \<or> lives s \<le> 0))
   \<and> (game_over s \<longrightarrow>
        GameOverSound \<notin> set (snd (run_frames c s fs))
        \<and> MusicStop \<notin> set (snd (run_frames c s fs))
        \<and> (\<forall>s'. fst (run_frames c s fs) = Continue s' \<longrightarrow>
              game_over s' \<and> score s' = score s \<and> lives s' = lives s))"
proof (intro conjI)
  show "\<not> game_over s \<longrightarrow>
      count_list (snd (run_frames c s fs)) GameOverSound \<le> 1
      \<and> count_list (snd (run_frames c s fs)) MusicStop \<le> 1
      \<and> (\<forall>s'. fst (run_frames c s fs) = Continue s' \<longrightarrow>
            count_list (snd (run_frames c s fs)) GameOverSound = (if game_over s' then 1 else 0)
            \<and> count_list (snd (run_frames c s fs)) MusicStop = (if game_over s' then 1 else 0))"
    using run_frames_enter_count[of c s fs "fst (run_frames c s fs)" "snd (run_frames c s fs)"]
    by simp
  show "\<exists>fx2. snd (frame c s inp) =
          (if \<not> game_over s \<and> (remaining_s c (now_ms inp) \<le> 0 \<or> lives s \<le> 0)
           then [MusicStop, GameOverSound] else []) @ fx2
        \<and> set fx2 \<subseteq> {ClickSound, SplatSound}"
    using frame_cues[of c s inp] by (simp add: game_over_check_facts(3))
  show "\<forall>s'. fst (frame c s inp) = Continue s' \<longrightarrow>
         (game_over s' \<longleftrightarrow> game_over s \<or> remaining_s c (now_ms inp) \<le> 0 \<or> lives s \<le> 0)"
    using frame_game_over[of c s inp] by blast
  show "game_over s \<longrightarrow>
        GameOverSound \<notin> set (snd (run_frames c s fs))
        \<and> MusicStop \<notin> set (snd (run_frames c s fs))
        \<and> (\<forall>s'. fst (run_frames c s fs) = Continue s' \<longrightarrow>
              game_over s' \<and> score s' = score s \<and> lives s' = lives s)"
    using run_frames_after_game_over[of c s fs "fst (run_frames c s fs)" "snd (run_frames c s fs)"]
    by simp
qed

text \<open>
  C5.  The claim has game over entered on the first frame in which the time left or
  the lives are at most 0.  The loop enters it earlier.  In the sample session (30
  seconds, started at 3000 ms) the frame of 32000 ms, 29 seconds in, leaves the game
  running; the next frame, at 32001 ms, stops the music and plays the game-over sound
  with 999 ms and three lives left; and the frame of 33000 ms, the first in which no
  time is left, plays nothing: the two cues are played once, a second too soon.
\<close>

theorem game_over_entered_before_time_is_up:
  "run_game_setup ''Easy'' ''Default'' sample_exit_rect 3000 = Inr (sample_config, sample_start)
   \<and> map_option (\<lambda>s. (game_over s, lives s))
       (state_of (run_game ''Easy'' ''Default'' sample_exit_rect 3000
          [\<lparr>now_ms = 32000, events = [], draw = 0\<rparr>]))
     = Some (False, 3)
   \<and> snd (run_frames sample_config sample_start
          [\<lparr>now_ms = 32000, events = [], draw = 0\<rparr>]) = []
   \<and> 0 < 1000 * game_length_seconds sample_config - (32001 - start_time_ms sample_config)
   \<and> map_option (\<lambda>s. (game_over s, lives s))
       (state_of (run_game ''Easy'' ''Default'' sample_exit_rect 3000
          [\<lparr>now_ms = 32000, events = [], draw = 0\<rparr>,
           \<lparr>now_ms = 32001, events = [], draw = 0\<rparr>]))
     = Some (True, 3)
   \<and> snd (run_frames sample_config sample_start
          [\<lparr>now_ms = 32000, events = [], draw = 0\<rparr>,
           \<lparr>now_ms = 32001, events = [], draw = 0\<rparr>]) = [MusicStop, GameOverSound]
   \<and> 1000 * game_length_seconds sample_config - (33000 - start_time_ms sample_config) = 0
   \<and> snd (run_frames sample_config sample_start
          [\<lparr>now_ms = 32000, events = [], draw = 0\<rparr>,
           \<lparr>now_ms = 32001, events = [], draw = 0\<rparr>,
           \<lparr>now_ms = 33000, events = [], draw = 0\<rparr>]) = [MusicStop, GameOverSound]"
  by (simp add: session_eval)

section \<open>Spawning\<close>

lemma spawn_new_mole_spec:
  assumes "mole_list s \<noteq> []" and k_def: "k = d mod length (mole_list s)"
  shows "k < length (mole_list s)"
    and "active_mole (spawn_new_mole c s now d) = Some k"
    and "length (mole_list (spawn_new_mole c s now d)) = length (mole_list s)"
    and "mole_list (spawn_new_mole c s now d) ! k =
           (mole_list s ! k)\<lparr>visible_ms := mole_visible_ms c, active := True, spawn_time := now\<rparr>"
    and "\<And>j. j < length (mole_list s) \<Longrightarrow> j \<noteq> k \<Longrightarrow>
           mole_list (spawn_new_mole c s now d) ! j =
             (if active_mole s = Some j then deactivate (mole_list s ! j) else mole_list s ! j)"
    and "score (spawn_new_mole c s now d) = score s"
    and "lives (spawn_new_mole c s now d) = lives s"
    and "game_over (spawn_new_mole c s now d) = game_over s"
    and "last_spawn_time (spawn_new_mole c s now d) = last_spawn_time s"
proof -
  define ms where "ms = (case active_mole s of
                  None \<Rightarrow> mole_list s
                | Some i \<Rightarrow> (mole_list s)[i := deactivate (mole_list s ! i)])"
  have len: "length ms = length (mole_list s)"
    by (simp add: ms_def split: option.splits)
  have s': "spawn_new_mole c s now d =
      s\<lparr>mole_list := ms[k := activate ((ms ! k)\<lparr>visible_ms := mole_visible_ms c\<rparr>) now],
        active_mole := Some k\<rparr>"
  proof -
    have "spawn_new_mole c s now d =
      s\<lparr>mole_list := ms[d mod length ms :=
            activate ((ms ! (d mod length ms))\<lparr>visible_ms := mole_visible_ms c\<rparr>) now],
        active_mole := Some (d mod length ms)\<rparr>"
      by (simp add: spawn_new_mole_def ms_def Let_def)
    then show ?thesis
      by (simp add: k_def len)
  qed
  show k: "k < length (mole_list s)"
    using assms(1) by (simp add: k_def)
  have old: "ms ! j = (if active_mole s = Some j then deactivate (mole_list s ! j) else mole_list s ! j)"
    if "j < length (mole_list s)" for j
    using that by (auto simp: ms_def nth_list_update split: option.splits)
  show "active_mole (spawn_new_mole c s now d) = Some k"
    by (simp add: s')
  show "length (mole_list (spawn_new_mole c s now d)) = length (mole_list s)"
    by (simp add: s' len)
  show "mole_list (spawn_new_mole c s now d) ! k =
           (mole_list s ! k)\<lparr>visible_ms := mole_visible_ms c, active := True, spawn_time := now\<rparr>"
    using k old[OF k] by (simp add: s' len activate_def deactivate_def)
  show "mole_list (spawn_new_mole c s now d) ! j =
             (if active_mole s = Some j then deactivate (mole_list s ! j) else mole_list s ! j)"
    if "j < length (mole_list s)" "j \<noteq> k" for j
    using that old[OF that(1)] by (simp add: s')
  show "score (spawn_new_mole c s now d) = score s"
    "lives (spawn_new_mole c s now d) = lives s"
    "game_over (spawn_new_mole c s now d) = game_over s"
    "last_spawn_time (spawn_new_mole c s now d) = last_spawn_time s"
    by (simp_all add: s')
qed

lemma moles_update_facts:
  "active_mole (moles_update s now) = active_mole s"
  "last_spawn_time (moles_update s now) = last_spawn_time s"
  "length (mole_list (moles_update s now)) = length (mole_list s)"
  "j < length (mole_list s) \<Longrightarrow> mole_list (moles_update s now) ! j = update (mole_list s ! j) now"
  "j < length (mole_list s) \<Longrightarrow> active (mole_list (moles_update s now) ! j) \<Longrightarrow>
     active (mole_list s ! j)"
  by (auto simp: moles_update_def update_def deactivate_def split: if_splits)

lemma frame_no_spawn:
  assumes "fst (frame c s inp) = Continue s'"
    and "\<not> (\<not> game_over (fst (game_over_check c s (now_ms inp)))
           \<and> now_ms inp - last_spawn_time s > spawn_interval_ms c)"
  shows "active_mole s' = active_mole s" and "last_spawn_time s' = last_spawn_time s"
    and "\<forall>j < length (mole_list s). active (mole_list s' ! j) \<longrightarrow> active (mole_list s ! j)"
proof -
  obtain fx where "frame c s inp = (Continue s', fx)"
    using assms(1) by (cases "frame c s inp") simp
  then obtain s2 fx2 where
    ev: "handle_events c (fst (game_over_check c s (now_ms inp))) (events inp) = (Continue s2, fx2)"
    and s': "s' = moles_update (spawn_step c s2 (now_ms inp) (draw inp)) (now_ms inp)"
    by (rule frame_Continue)
  let ?s1 = "fst (game_over_check c s (now_ms inp))"
  have s1: "mole_list ?s1 = mole_list s" "active_mole ?s1 = active_mole s"
    "last_spawn_time ?s1 = last_spawn_time s"
    by (simp_all add: game_over_check_def)
  note f = handle_events_facts[OF ev]
  have "spawn_step c s2 (now_ms inp) (draw inp) = s2"
    using assms(2) f s1 by (auto simp: spawn_step_def)
  then have e: "s' = moles_update s2 (now_ms inp)"
    by (simp add: s')
  show "active_mole s' = active_mole s"
    using f s1 by (simp add: e moles_update_facts)
  show "last_spawn_time s' = last_spawn_time s"
    using f s1 by (simp add: e moles_update_facts)
  show "\<forall>j < length (mole_list s). active (mole_list s' ! j) \<longrightarrow> active (mole_list s ! j)"
  proof (intro allI impI)
    fix j assume j: "j < length (mole_list s)" and a: "active (mole_list s' ! j)"
    have l: "length (mole_list s2) = length (mole_list s)"
      using f s1 by simp
    from a have "active (mole_list s2 ! j)"
      using j l moles_update_facts(5)[of j s2 "now_ms inp"] by (simp add: e)
    then show "active (mole_list s ! j)"
      using f s1 j by auto
  qed
qed

lemma frame_spawn:
  assumes "fst (frame c s inp) = Continue s'"
    and "\<not> game_over (fst (game_over_check c s (now_ms inp)))"
    and "now_ms inp - last_spawn_time s > spawn_interval_ms c"
    and "mole_list s \<noteq> []" and "0 \<le> mole_visible_ms c"
    and k_def: "k = draw inp mod length (mole_list s)"
  shows "active_mole s' = Some k" and "last_spawn_time s' = now_ms inp"
    and "active (mole_list s' ! k)" and "spawn_time (mole_list s' ! k) = now_ms inp"
    and "visible_ms (mole_list s' ! k) = mole_visible_ms c"
    and "\<forall>j < length (mole_list s). j \<noteq> k \<and> active_mole s = Some j \<longrightarrow> \<not> active (mole_list s' ! j)"
proof -
  obtain fx where "frame c s inp = (Continue s', fx)"
    using assms(1) by (cases "frame c s inp") simp
  then obtain s2 fx2 where
    ev: "handle_events c (fst (game_over_check c s (now_ms inp))) (events inp) = (Continue s2, fx2)"
    and s': "s' = moles_update (spawn_step c s2 (now_ms inp) (draw inp)) (now_ms inp)"
    by (rule frame_Continue)
  let ?s1 = "fst (game_over_check c s (now_ms inp))"
  have s1: "mole_list ?s1 = mole_list s" "active_mole ?s1 = active_mole s"
    "last_spawn_time ?s1 = last_spawn_time s"
    by (simp_all add: game_over_check_def)
  note f = handle_events_facts[OF ev]
  have l: "length (mole_list s2) = length (mole_list s)"
    using f s1 by simp
  then have ne: "mole_list s2 \<noteq> []"
    using assms(4) by auto
  have k2: "k = draw inp mod length (mole_list s2)"
    by (simp add: k_def l)
  let ?sp = "spawn_new_mole c s2 (now_ms inp) (draw inp)"
  have st: "spawn_step c s2 (now_ms inp) (draw inp) = ?sp\<lparr>last_spawn_time := now_ms inp\<rparr>"
    using assms(2,3) f s1 by (simp add: spawn_step_def)
  note sp = spawn_new_mole_spec[OF ne k2]
  have kl: "k < length (mole_list ?sp)"
    using sp(1,3) by simp
  have mk: "mole_list s' ! k = update (mole_list ?sp ! k) (now_ms inp)"
    using kl by (simp add: s' st moles_update_def)
  show "active_mole s' = Some k"
    using sp(2) by (simp add: s' st moles_update_def)
  show "last_spawn_time s' = now_ms inp"
    by (simp add: s' st moles_update_def)
  show "active (mole_list s' ! k)" "spawn_time (mole_list s' ! k) = now_ms inp"
    "visible_ms (mole_list s' ! k) = mole_visible_ms c"
    using assms(5) by (simp_all add: mk sp(4) update_def)
  show "\<forall>j < length (mole_list s). j \<noteq> k \<and> active_mole s = Some j \<longrightarrow> \<not> active (mole_list s' ! j)"
  proof (intro allI impI)
    fix j assume j: "j < length (mole_list s)" and h: "j \<noteq> k \<and> active_mole s = Some j"
    have j2: "j < length (mole_list s2)"
      using j l by simp
    have "active_mole s2 = Some j"
      using h f s1 by simp
    with sp(5)[OF j2] h have "mole_list ?sp ! j = deactivate (mole_list s2 ! j)"
      by simp
    moreover have "mole_list s' ! j = update (mole_list ?sp ! j) (now_ms inp)"
      using j2 sp(3) by (simp add: s' st moles_update_def)
    ultimately show "\<not> active (mole_list s' ! j)"
      by (simp add: update_def deactivate_def)
  qed
qed

text \<open>
  C6.  In a frame that goes on to the game logic with the game not over, a mole is
  spawned exactly when \<open>now - last_spawn_time > spawn_interval_ms\<close>.  The spawn
  deactivates the mole \<^verbatim>\<open>active_mole\<close> refers to, if any, picks the mole the random
  draw names among all of \<^verbatim>\<open>mole_list\<close> (any of them, the current one included), sets
  its visible time to the difficulty's, activates it at \<open>now\<close>, makes it
  \<^verbatim>\<open>active_mole\<close> and records \<open>last_spawn_time = now\<close>; after the frame that mole is up.
  In a frame where the condition does not hold nothing is spawned and no mole becomes
  active.
\<close>

theorem spawn_when_due:
  "(mole_list s \<noteq> [] \<and> \<not> game_over s \<and> now - last_spawn_time s > spawn_interval_ms c \<longrightarrow>
      (let k = d mod length (mole_list s); s' = spawn_step c s now d in
         k < length (mole_list s) \<and> active_mole s' = Some k \<and> last_spawn_time s' = now
         \<and> length (mole_list s') = length (mole_list s)
         \<and> mole_list s' ! k =
             (mole_list s ! k)\<lparr>visible_ms := mole_visible_ms c, active := True,
                                spawn_time := now\<rparr>
         \<and> (\<forall>j < length (mole_list s). j \<noteq> k \<longrightarrow>
               mole_list s' ! j =
                 (if active_mole s = Some j then deactivate (mole_list s ! j)
                  else mole_list s ! j))))
   \<and> (\<not> (\<not> game_over s \<and> now - last_spawn_time s > spawn_interval_ms c) \<longrightarrow>
        spawn_step c s now d = s)
   \<and> (\<forall>i < length (mole_list s). active_mole (spawn_new_mole c s now i) = Some i)
   \<and> (fst (frame c s inp) = Continue s1 \<and> mole_list s \<noteq> [] \<and> 0 \<le> mole_visible_ms c
        \<and> \<not> game_over (fst (game_over_check c s (now_ms inp)))
        \<and> now_ms inp - last_spawn_time s > spawn_interval_ms c \<longrightarrow>
        (let k = draw inp mod length (mole_list s) in
           active_mole s1 = Some k \<and> last_spawn_time s1 = now_ms inp
           \<and> active (mole_list s1 ! k) \<and> spawn_time (mole_list s1 ! k) = now_ms inp
           \<and> visible_ms (mole_list s1 ! k) = mole_visible_ms c
           \<and> (\<forall>j < length (mole_list s). j \<noteq> k \<and> active_mole s = Some j \<longrightarrow>
                 \<not> active (mole_list s1 ! j))))
   \<and> (fst (frame c s inp) = Continue s1
        \<and> \<not> (\<not> game_over (fst (game_over_check c s (now_ms inp)))
              \<and> now_ms inp - last_spawn_time s > spawn_interval_ms c) \<longrightarrow>
        active_mole s1 = active_mole s \<and> last_spawn_time s1 = last_spawn_time s
        \<and> (\<forall>j < length (mole_list s). active (mole_list s1 ! j) \<longrightarrow> active (mole_list s ! j)))"
proof (intro conjI)
  show "mole_list s \<noteq> [] \<and> \<not> game_over s \<and> now - last_spawn_time s > spawn_interval_ms c \<longrightarrow>
      (let k = d mod length (mole_list s); s' = spawn_step c s now d in
         k < length (mole_list s) \<and> active_mole s' = Some k \<and> last_spawn_time s' = now
         \<and> length (mole_list s') = length (mole_list s)
         \<and> mole_list s' ! k =
             (mole_list s ! k)\<lparr>visible_ms := mole_visible_ms c, active := True,
                                spawn_time := now\<rparr>
         \<and> (\<forall>j < length (mole_list s). j \<noteq> k \<longrightarrow>
               mole_list s' ! j =
                 (if active_mole s = Some j then deactivate (mole_list s ! j)
                  else mole_list s ! j)))"
  proof
    assume h: "mole_list s \<noteq> [] \<and> \<not> game_over s \<and> now - last_spawn_time s > spawn_interval_ms c"
    then have ne: "mole_list s \<noteq> []" by simp
    define k where "k = d mod length (mole_list s)"
    note sp = spawn_new_mole_spec[OF ne k_def]
    have st: "spawn_step c s now d = (spawn_new_mole c s now d)\<lparr>last_spawn_time := now\<rparr>"
      using h by (simp add: spawn_step_def)
    have "k < length (mole_list s) \<and> active_mole (spawn_step c s now d) = Some k
         \<and> last_spawn_time (spawn_step c s now d) = now
         \<and> length (mole_list (spawn_step c s now d)) = length (mole_list s)
         \<and> mole_list (spawn_step c s now d) ! k =
             (mole_list s ! k)\<lparr>visible_ms := mole_visible_ms c, active := True,
                                spawn_time := now\<rparr>
         \<and> (\<forall>j < length (mole_list s). j \<noteq> k \<longrightarrow>
               mole_list (spawn_step c s now d) ! j =
                 (if active_mole s = Some j then deactivate (mole_list s ! j)
                  else mole_list s ! j))"
      using sp(1-5) by (simp add: st)
    then show "let k = d mod length (mole_list s); s' = spawn_step c s now d in
         k < length (mole_list s) \<and> active_mole s' = Some k \<and> last_spawn_time s' = now
         \<and> length (mole_list s') = length (mole_list s)
         \<and> mole_list s' ! k =
             (mole_list s ! k)\<lparr>visible_ms := mole_visible_ms c, active := True,
                                spawn_time := now\<rparr>
         \<and> (\<forall>j < length (mole_list s). j \<noteq> k \<longrightarrow>
               mole_list s' ! j =
                 (if active_mole s = Some j then deactivate (mole_list s ! j)
                  else mole_list s ! j))"
      unfolding Let_def k_def .
  qed
  show "\<not> (\<not> game_over s \<and> now - last_spawn_time s > spawn_interval_ms c) \<longrightarrow>
        spawn_step c s now d = s"
    by (auto simp: spawn_step_def)
  show "\<forall>i < length (mole_list s). active_mole (spawn_new_mole c s now i) = Some i"
  proof (intro allI impI)
    fix i assume i: "i < length (mole_list s)"
    then have ne: "mole_list s \<noteq> []" by auto
    have "i = i mod length (mole_list s)" using i by simp
    from spawn_new_mole_spec(2)[OF ne this]
    show "active_mole (spawn_new_mole c s now i) = Some i" .
  qed
  show "fst (frame c s inp) = Continue s1 \<and> mole_list s \<noteq> [] \<and> 0 \<le> mole_visible_ms c
        \<and> \<not> game_over (fst (game_over_check c s (now_ms inp)))
        \<and> now_ms inp - last_spawn_time s > spawn_interval_ms c \<longrightarrow>
        (let k = draw inp mod length (mole_list s) in
           active_mole s1 = Some k \<and> last_spawn_time s1 = now_ms inp
           \<and> active (mole_list s1 ! k) \<and> spawn_time (mole_list s1 ! k) = now_ms inp
           \<and> visible_ms (mole_list s1 ! k) = mole_visible_ms c
           \<and> (\<forall>j < length (mole_list s). j \<noteq> k \<and> active_mole s = Some j \<longrightarrow>
                 \<not> active (mole_list s1 ! j)))"
  proof
    assume h: "fst (frame c s inp) = Continue s1 \<and> mole_list s \<noteq> [] \<and> 0 \<le> mole_visible_ms c
        \<and> \<not> game_over (fst (game_over_check c s (now_ms inp)))
        \<and> now_ms inp - last_spawn_time s > spawn_interval_ms c"
    define k where "k = draw inp mod length (mole_list s)"
    have "active_mole s1 = Some k \<and> last_spawn_time s1 = now_ms inp
           \<and> active (mole_list s1 ! k) \<and> spawn_time (mole_list s1 ! k) = now_ms inp
           \<and> visible_ms (mole_list s1 ! k) = mole_visible_ms c
           \<and> (\<forall>j < length (mole_list s). j \<noteq> k \<and> active_mole s = Some j \<longrightarrow>
                 \<not> active (mole_list s1 ! j))"
      using h frame_spawn[of c s inp s1 k] k_def by blast
    then show "let k = draw inp mod length (mole_list s) in
           active_mole s1 = Some k \<and> last_spawn_time s1 = now_ms inp
           \<and> active (mole_list s1 ! k) \<and> spawn_time (mole_list s1 ! k) = now_ms inp
           \<and> visible_ms (mole_list s1 ! k) = mole_visible_ms c
           \<and> (\<forall>j < length (mole_list s). j \<noteq> k \<and> active_mole s = Some j \<longrightarrow>
                 \<not> active (mole_list s1 ! j))"
      unfolding Let_def k_def .
  qed
  show "fst (frame c s inp) = Continue s1
        \<and> \<not> (\<not> game_over (fst (game_over_check c s (now_ms inp)))
              \<and> now_ms inp - last_spawn_time s > spawn_interval_ms c) \<longrightarrow>
        active_mole s1 = active_mole s \<and> last_spawn_time s1 = last_spawn_time s
        \<and> (\<forall>j < length (mole_list s). active (mole_list s1 ! j) \<longrightarrow> active (mole_list s ! j))"
    using frame_no_spawn[of c s inp s1] by blast
qed

theorem spawn_when_due_witness:
  "fst (frame sample_config sample_start \<lparr>now_ms = 3016, events = [], draw = 0\<rparr>)
     = Continue sample_session
   \<and> mole_list sample_start \<noteq> [] \<and> 0 \<le> mole_visible_ms sample_config
   \<and> \<not> game_over (fst (game_over_check sample_config sample_start 3016))
   \<and> 3016 - last_spawn_time sample_start > spawn_interval_ms sample_config
   \<and> active_mole sample_session = Some 0 \<and> last_spawn_time sample_session = 3016
   \<and> active (mole_list sample_session ! 0)
   \<and> fst (frame sample_config sample_session \<lparr>now_ms = 3033, events = [], draw = 4\<rparr>)
     = Continue sample_session
   \<and> \<not> 3033 - last_spawn_time sample_session > spawn_interval_ms sample_config
   \<and> active_mole (spawn_new_mole sample_config sample_session 4000 0) = Some 0"
proof -
  let ?f1 = "\<lparr>now_ms = 3016, events = [], draw = 0\<rparr>"
  let ?f2 = "\<lparr>now_ms = 3033, events = [], draw = 4\<rparr>"
  have r1: "fst (frame sample_config sample_start ?f1) = Continue sample_session"
    by (simp add: session_eval)
  have h1: "mole_list sample_start \<noteq> [] \<and> 0 \<le> mole_visible_ms sample_config
     \<and> \<not> game_over (fst (game_over_check sample_config sample_start (now_ms ?f1)))
     \<and> now_ms ?f1 - last_spawn_time sample_start > spawn_interval_ms sample_config"
    by (simp add: session_eval)
  have k1: "draw ?f1 mod length (mole_list sample_start) = 0"
    by simp
  from spawn_when_due[where s = sample_start and c = sample_config and inp = ?f1
      and ?s1.0 = sample_session and now = 3016 and d = 0] r1 h1
  have "let k = draw ?f1 mod length (mole_list sample_start) in
           active_mole sample_session = Some k \<and> last_spawn_time sample_session = now_ms ?f1
           \<and> active (mole_list sample_session ! k)
           \<and> spawn_time (mole_list sample_session ! k) = now_ms ?f1
           \<and> visible_ms (mole_list sample_session ! k) = mole_visible_ms sample_config
           \<and> (\<forall>j < length (mole_list sample_start). j \<noteq> k \<and> active_mole sample_start = Some j \<longrightarrow>
                 \<not> active (mole_list sample_session ! j))"
    by blast
  then have a: "active_mole sample_session = Some 0 \<and> last_spawn_time sample_session = 3016
      \<and> active (mole_list sample_session ! 0)"
    unfolding Let_def k1 by simp
  have r2: "fst (frame sample_config sample_session ?f2) = Continue sample_session"
    by (simp add: session_eval)
  have h2: "\<not> now_ms ?f2 - last_spawn_time sample_session > spawn_interval_ms sample_config"
    by (simp add: session_eval)
  have l: "(0::nat) < length (mole_list sample_session)"
    by (simp add: sample_session_def create_holes_value)
  from spawn_when_due[where s = sample_session and c = sample_config and inp = ?f2
      and ?s1.0 = sample_session and now = 4000 and d = 0] r2 h2
  have "\<forall>i < length (mole_list sample_session).
      active_mole (spawn_new_mole sample_config sample_session 4000 i) = Some i"
    by blast
  with l have c: "active_mole (spawn_new_mole sample_config sample_session 4000 0) = Some 0"
    by blast
  from r1 h1 a r2 h2 c show ?thesis
    by simp
qed

end
